theory Spec2Isabelle
  imports Main "HOL-Library.Word" "HOL-Library.Signed_Division" "HOL-Library.Multiset"
begin

unbundle bit_operations_syntax

section \<open>Machine integers of the C source\<close>

type_synonym u32 = "32 word"
type_synonym u64 = "64 word"

text \<open>
  A C \<open>int\<close> is modelled as an \<open>int\<close> together with the two's-complement reduction
  \<open>wrap_int32\<close> applied after every arithmetic operation (signed overflow is undefined
  in C; the reduction is what the compiled x86 code computes).  C's \<open>/\<close> on signed
  operands truncates towards zero: that is \<open>sdiv\<close>, not HOL's \<open>div\<close>.
\<close>

definition wrap_int32 :: "int \<Rightarrow> int" where
  "wrap_int32 x = (x + 2 ^ 31) mod 2 ^ 32 - 2 ^ 31"

definition in_int32 :: "int \<Rightarrow> bool" where
  "in_int32 x \<longleftrightarrow> - (2 ^ 31) \<le> x \<and> x < 2 ^ 31"

section \<open>Timestamp corrector\<close>

text \<open>
  \<open>FixOverflowTimestamps(hdr, fileNameTime, tsOffs)\<close>.  The header's 36-bit
  \<open>timestamp\<close> bit-field is a \<open>nat\<close> below \<open>2 ^ 36\<close>.  \<open>nWraps\<close> is the local
  variable of that name; the assignment \<open>hdr->timestamp += 2000*nWraps*1048576\<close> computes the
  product in \<open>int\<close> (left to right), converts it to \<open>unsigned long\<close> and stores the sum
  back into the 36-bit field.
\<close>

definition fudgeFactor :: int where
  "fudgeFactor = 3"

definition nWraps :: "nat \<Rightarrow> int \<Rightarrow> int \<Rightarrow> int" where
  "nWraps ts fileNameTime tsOffs =
     wrap_int32 (wrap_int32 (wrap_int32 (fileNameTime - tsOffs) - int (ts div 2000)) + fudgeFactor)
       sdiv 1048576"

definition FixOverflowTimestamps :: "nat \<Rightarrow> int \<Rightarrow> int \<Rightarrow> nat" where
  "FixOverflowTimestamps ts fileNameTime tsOffs =
     nat ((int ts
           + wrap_int32 (wrap_int32 (2000 * nWraps ts fileNameTime tsOffs) * 1048576))
          mod 2 ^ 36)"


section \<open>Packet words\<close>

text \<open>
  \<open>__bswap_64\<close>: the file holds big-endian words, the host loads them little-endian.
\<close>

definition bswap_64 :: "u64 \<Rightarrow> u64" where
  "bswap_64 w =
     push_bit 56 (w AND 0xFF) OR
     push_bit 40 (w AND 0xFF00) OR
     push_bit 24 (w AND 0xFF0000) OR
     push_bit 8 (w AND 0xFF000000) OR
     (drop_bit 8 w AND 0xFF000000) OR
     (drop_bit 24 w AND 0xFF0000) OR
     (drop_bit 40 w AND 0xFF00) OR
     drop_bit 56 w"

text \<open>
  The packed bit-fields of \<open>struct hdrpacket\<close> and \<open>struct datapacket\<close>, read from the swapped
  word.  The compiler the source names (gcc, x86-64) allocates bit-fields from the least
  significant bit: \<open>hdrpacket\<close> is timestamp (bits 0-35), frame (36-47), roach (48-55), start
  (56-63); \<open>datapacket\<close> is baseline (0-16), wvl (17-34, signed), timestamp (35-43),
  ycoord (44-53), xcoord (54-63).
\<close>

definition hdr_timestamp :: "u64 \<Rightarrow> nat" where
  "hdr_timestamp w = unat (take_bit 36 w)"

definition hdr_start :: "u64 \<Rightarrow> u64" where
  "hdr_start w = drop_bit 56 w"

definition data_wvl :: "u64 \<Rightarrow> int" where
  "data_wvl w = signed_take_bit 17 (uint (take_bit 18 (drop_bit 17 w)))"

definition data_timestamp :: "u64 \<Rightarrow> nat" where
  "data_timestamp w = unat (take_bit 9 (drop_bit 35 w))"

definition data_ycoord :: "u64 \<Rightarrow> nat" where
  "data_ycoord w = unat (take_bit 10 (drop_bit 44 w))"

definition data_xcoord :: "u64 \<Rightarrow> nat" where
  "data_xcoord w = unat (drop_bit 54 w)"

section \<open>Photon events and the per-pixel tables\<close>

text \<open>
  Floating-point arithmetic is not modelled.  The float fields of an event hold symbolic
  values: \<open>Float_one\<close> is the constant \<open>1.0\<close>, and \<open>Float_wvl r\<close> is the float that line 197
  computes from the raw 18-bit value \<open>r\<close>, \<open>((float) r)*RAD2DEG/32768.0\<close> with the machine's
  roundings.
\<close>

datatype cfloat = Float_one | Float_wvl int

text \<open>
  Modelled from the spec: the \<open>photon\<close> struct is declared in \<open>binprocessor.h\<close>, which is
  not among the sources.  The fields are the five the source assigns (\<open>resID\<close>,
  \<open>timestamp\<close>, \<open>wvl\<close>, \<open>wSpec\<close>, \<open>wNoise\<close>, the spec's Photon Event); \<open>resID\<close> and
  \<open>timestamp\<close> are 32-bit unsigned (the source casts the timestamp to \<open>uint32_t\<close> and
  copies \<open>resID\<close> from a \<open>uint32_t\<close> table), the other three are floats.
\<close>

record photon =
  resID :: u32
  timestamp :: u32
  wvl :: cfloat
  wSpec :: cfloat
  wNoise :: cfloat

text \<open>
  A heap block of photons is a list of cells, \<open>None\<close> for a cell never written; its length is
  the capacity allocated.  \<open>ptable[x][y]\<close> is such a block, or \<open>None\<close> while the pointer has
  never been set by \<open>malloc\<close>.  The four tables are indexed by the pair \<open>(x, y)\<close>.
  Every function below that touches memory returns \<open>None\<close> where the C program would read
  or write outside a block, or read a cell or variable never initialised.
\<close>

type_synonym block = "photon option list"

record tables =
  BeamMap :: "nat \<times> nat \<Rightarrow> u32"
  BeamFlag :: "nat \<times> nat \<Rightarrow> u32"
  ptable :: "nat \<times> nat \<Rightarrow> block option"
  ptablect :: "nat \<times> nat \<Rightarrow> u32"

definition malloc_photons :: "nat \<Rightarrow> block" where
  "malloc_photons n = replicate n None"

definition realloc_photons :: "block \<Rightarrow> nat \<Rightarrow> block" where
  "realloc_photons cells n = take n cells @ replicate (n - length cells) None"

section \<open>Table sorter\<close>

text \<open>
  \<open>SortPhotonTables\<close>, on the first \<open>ptablect[x][y]\<close> cells of a block, as a list with
  indices for the three pointers.  \<open>shift_up xs s lo\<close> is the loop
  \<open>for (photonSwapAddr = s; photonSwapAddr > lo; photonSwapAddr--) *photonSwapAddr = *(photonSwapAddr-1)\<close>.
\<close>

function shift_up :: "photon list \<Rightarrow> nat \<Rightarrow> nat \<Rightarrow> photon list" where
  "shift_up xs s lo = (if lo < s then shift_up (xs[s := xs ! (s - 1)]) (s - 1) lo else xs)"
  by pat_completeness auto
termination
  by (relation "measure (\<lambda>(xs, s, lo). s)") auto

declare shift_up.simps [simp del]

text \<open>
  The loop over \<open>curPhotonAddr\<close> (lines 87-107) for the element at index \<open>p\<close>; \<open>cur\<close> runs
  down from \<open>p - 1\<close>, and the branch for \<open>cur = 0\<close> breaks before the pointer could pass
  the start of the block.
\<close>

function insert_photon :: "photon list \<Rightarrow> nat \<Rightarrow> nat \<Rightarrow> photon list" where
  "insert_photon xs p cur =
     (if timestamp (xs ! p) \<ge> timestamp (xs ! cur) then
        (if cur = p - 1 then xs
         else (shift_up xs p (cur + 1))[cur + 1 := xs ! p])
      else if cur = 0 then (shift_up xs p cur)[cur := xs ! p]
      else insert_photon xs p (cur - 1))"
  by pat_completeness auto
termination
  by (relation "measure (\<lambda>(xs, p, cur). cur)") auto

declare insert_photon.simps [simp del]

text \<open>The loop over \<open>photonToSortAddr\<close> (line 85), from index \<open>p\<close> up to \<open>n\<close>.\<close>

function sort_table :: "photon list \<Rightarrow> nat \<Rightarrow> nat \<Rightarrow> photon list" where
  "sort_table xs p n = (if p < n then sort_table (insert_photon xs p (p - 1)) (p + 1) n else xs)"
  by pat_completeness auto
termination
  by (relation "measure (\<lambda>(xs, p, n). n - p)") auto

declare sort_table.simps [simp del]

text \<open>
  One pixel.  With fewer than two events the loop body never runs and the block is not
  touched (it may not even exist).
\<close>

definition sort_pixel :: "tables \<Rightarrow> nat \<times> nat \<Rightarrow> tables option" where
  "sort_pixel st xy =
     (let n = unat (ptablect st xy) in
      if n \<le> 1 then Some st
      else case ptable st xy of
             None \<Rightarrow> None
           | Some cells \<Rightarrow>
               if length cells < n then None
               else case those (take n cells) of
                      None \<Rightarrow> None
                    | Some xs \<Rightarrow>
                        Some (st\<lparr>ptable := (ptable st)(xy := Some (map Some (sort_table xs 1 n) @ drop n cells))\<rparr>))"

fun sort_pixels :: "tables \<Rightarrow> (nat \<times> nat) list \<Rightarrow> tables option" where
  "sort_pixels st [] = Some st"
| "sort_pixels st (xy # rest) =
     (case sort_pixel st xy of None \<Rightarrow> None | Some st' \<Rightarrow> sort_pixels st' rest)"

text \<open>The pixels in the order of the two outer loops: \<open>x\<close> outside, \<open>y\<close> inside.\<close>

definition pixels :: "nat \<Rightarrow> nat \<Rightarrow> (nat \<times> nat) list" where
  "pixels beamCols beamRows = concat (map (\<lambda>x. map (\<lambda>y. (x, y)) [0..<beamRows]) [0..<beamCols])"

definition SortPhotonTables :: "tables \<Rightarrow> nat \<Rightarrow> nat \<Rightarrow> tables option" where
  "SortPhotonTables st beamCols beamRows = sort_pixels st (pixels beamCols beamRows)"


section \<open>Beam map\<close>

text \<open>
  \<open>ParseBeamMapFile\<close>.  The file is what \<open>fscanf\<close> makes of it: the rows it scans in
  full (\<open>ret = 4\<close>), then the values the last, failing call assigns before it stops
  (\<open>tail\<close>, fewer than four; empty at a clean end of file).  The four locals keep their last
  values, and the three stores after the \<open>if\<close> run after the failing call too.
  \<open>BeamMap\<close> and \<open>BeamFlag\<close> are \<open>beamCols\<close> blocks of \<open>beamRows\<close> words and
  \<open>DiskBeamMap\<close> has as many rows as it was allocated with: a store outside them, and a
  store through the locals before any row has set them, is \<open>None\<close>.
\<close>

type_synonym beamrow = "int \<times> int \<times> int \<times> int"

definition store_beam :: "nat \<Rightarrow> nat \<Rightarrow> beamrow \<Rightarrow> tables \<Rightarrow> tables option" where
  "store_beam beamCols beamRows row st =
     (case row of (resid, flag, x, y) \<Rightarrow>
        if 0 \<le> x \<and> x < int beamCols \<and> 0 \<le> y \<and> y < int beamRows then
          Some (st\<lparr>BeamMap := (BeamMap st)((nat x, nat y) := word_of_int resid),
                   BeamFlag := (BeamFlag st)((nat x, nat y) := (if flag > 1 then 2 else word_of_int flag))\<rparr>)
        else None)"

fun scan_rows :: "nat \<Rightarrow> nat \<Rightarrow> beamrow list \<Rightarrow> nat \<Rightarrow> tables \<Rightarrow> beamrow list
    \<Rightarrow> (nat \<times> tables \<times> beamrow list) option" where
  "scan_rows beamCols beamRows [] cnt st disk = Some (cnt, st, disk)"
| "scan_rows beamCols beamRows (row # rest) cnt st disk =
     (if cnt < length disk then
        (case store_beam beamCols beamRows row st of
           None \<Rightarrow> None
         | Some st' \<Rightarrow> scan_rows beamCols beamRows rest (cnt + 1) st' (disk[cnt := row]))
      else None)"

fun assign_tail :: "int list \<Rightarrow> beamrow \<Rightarrow> beamrow" where
  "assign_tail [] (resid, flag, x, y) = (resid, flag, x, y)"
| "assign_tail [a] (resid, flag, x, y) = (a, flag, x, y)"
| "assign_tail [a, b] (resid, flag, x, y) = (a, b, x, y)"
| "assign_tail (a # b # c # _) (resid, flag, x, y) = (a, b, c, y)"

definition ParseBeamMapFile :: "nat \<Rightarrow> nat \<Rightarrow> beamrow list \<Rightarrow> int list \<Rightarrow> tables \<Rightarrow> beamrow list
    \<Rightarrow> (nat \<times> tables \<times> beamrow list) option" where
  "ParseBeamMapFile beamCols beamRows rows tail st disk =
     (case scan_rows beamCols beamRows rows 0 st disk of
        None \<Rightarrow> None
      | Some (cnt, st', disk') \<Rightarrow>
          if rows = [] then None
          else (case store_beam beamCols beamRows (assign_tail tail (last rows)) st' of
                  None \<Rightarrow> None
                | Some st'' \<Rightarrow> Some (cnt, st'', disk')))"

definition InitializeBeamMap :: "(nat \<times> nat \<Rightarrow> u32) \<Rightarrow> u32 \<Rightarrow> nat \<Rightarrow> nat \<Rightarrow> (nat \<times> nat \<Rightarrow> u32)" where
  "InitializeBeamMap m v beamCols beamRows =
     (\<lambda>(x, y). if x < beamCols \<and> y < beamRows then v else m (x, y))"

section \<open>Packet decoder\<close>

text \<open>
  Lines 188-200 for one pixel: grow the block when the count is 2498 modulo 2500, write the
  event at index \<open>ptablect[x][y]\<close>, increment the count (a \<open>uint32_t\<close>).  \<open>cursize\<close> is
  \<open>ceil(count / 2500.0)\<close>.
\<close>

definition cursize :: "nat \<Rightarrow> nat" where
  "cursize c = (c + 2499) div 2500"

definition append_photon :: "block option \<Rightarrow> u32 \<Rightarrow> photon \<Rightarrow> (block \<times> u32) option" where
  "append_photon buf ct ev =
     (case (if unat ct mod 2500 = 2498
            then map_option (\<lambda>cells. realloc_photons cells (2500 * (cursize (unat ct) + 1))) buf
            else buf) of
        None \<Rightarrow> None
      | Some cells \<Rightarrow>
          if unat ct < length cells then Some (cells[unat ct := Some ev], ct + 1) else None)"

text \<open>The event of lines 195-199, from the pixel's resID and the swapped data word.\<close>

definition photon_of :: "u32 \<Rightarrow> int \<Rightarrow> u64 \<Rightarrow> photon" where
  "photon_of resid basetime w =
     \<lparr>resID = resid,
      timestamp = word_of_int (basetime * 500 + int (data_timestamp w)),
      wvl = Float_wvl (data_wvl w),
      wSpec = Float_one, wNoise = Float_one\<rparr>"

text \<open>The body of the loop over the data words (lines 180-200), on the swapped word.\<close>

definition parse_word :: "int \<Rightarrow> int \<Rightarrow> nat \<Rightarrow> nat \<Rightarrow> u64 \<Rightarrow> tables \<Rightarrow> tables option" where
  "parse_word basetime mapflag beamCols beamRows w st =
     (let xy = (data_xcoord w, data_ycoord w) in
      if data_xcoord w \<ge> beamCols \<or> data_ycoord w \<ge> beamRows then Some st
      else if mapflag > 0 \<and> BeamFlag st xy > 0 then Some st
      else
        (case append_photon (ptable st xy) (ptablect st xy)
                (photon_of (BeamMap st xy) basetime w) of
           None \<Rightarrow> None
         | Some (cells, ct) \<Rightarrow>
             Some (st\<lparr>ptable := (ptable st)(xy := Some cells),
                      ptablect := (ptablect st)(xy := ct)\<rparr>)))"

fun parse_words :: "int \<Rightarrow> int \<Rightarrow> nat \<Rightarrow> nat \<Rightarrow> u64 list \<Rightarrow> tables \<Rightarrow> tables option" where
  "parse_words basetime mapflag beamCols beamRows [] st = Some st"
| "parse_words basetime mapflag beamCols beamRows (w # ws) st =
     (case parse_word basetime mapflag beamCols beamRows w st of
        None \<Rightarrow> None
      | Some st' \<Rightarrow> parse_words basetime mapflag beamCols beamRows ws st')"

text \<open>
  \<open>basetime = hdr->timestamp - tstart\<close>: the difference of two unsigned 64-bit values, read
  as an \<open>int64_t\<close>.
\<close>

definition basetime_of :: "nat \<Rightarrow> u64 \<Rightarrow> int" where
  "basetime_of ts tstart = sint (word_of_nat ts - tstart :: u64)"

text \<open>
  \<open>ParseToMem\<close>.  \<open>packet\<close> is the block of words at the pointer, \<open>l\<close> the byte count; the
  global \<open>tstart\<close> is a parameter.  The header is word 0, the data words are words
  \<open>1 .. l/8 - 1\<close>.
\<close>

definition ParseToMem :: "u64 list \<Rightarrow> nat \<Rightarrow> int \<Rightarrow> int \<Rightarrow> int \<Rightarrow> int \<Rightarrow> nat \<Rightarrow> nat \<Rightarrow> u64
    \<Rightarrow> tables \<Rightarrow> tables option" where
  "ParseToMem packet l tsOffs FirstFile iFile mapflag beamCols beamRows tstart st =
     (if length packet < 1 \<or> length packet < l div 8 then None
      else if hdr_start (bswap_64 (packet ! 0)) \<noteq> 0xFF then Some st
      else
        (let ts = FixOverflowTimestamps (hdr_timestamp (bswap_64 (packet ! 0)))
                    (wrap_int32 (FirstFile + iFile)) tsOffs;
             basetime = basetime_of ts tstart
         in if basetime < 0 then Some st
            else parse_words basetime mapflag beamCols beamRows
                   (map bswap_64 (take (l div 8 - 1) (drop 1 packet))) st))"


section \<open>Packet framer and run extractor\<close>

definition beamMapInitVal :: u32 where
  "beamMapInitVal = - 1"

text \<open>Lines 309-322: a block of 2500 photons for every pixel the beam map gives a resID.\<close>

definition alloc_ptable :: "tables \<Rightarrow> nat \<Rightarrow> nat \<Rightarrow> tables" where
  "alloc_ptable st beamCols beamRows =
     st\<lparr>ptable := (\<lambda>(x, y). if x < beamCols \<and> y < beamRows \<and> BeamMap st (x, y) \<noteq> beamMapInitVal
                              then Some (malloc_photons 2500) else ptable st (x, y))\<rparr>"

definition is_header :: "u64 \<Rightarrow> bool" where
  "is_header w \<longleftrightarrow> hdr_start (bswap_64 w) = 0xFF"

text \<open>Lines 351-361: the index of the first header word of the file, if there is one.\<close>

fun find_header :: "u64 list \<Rightarrow> nat \<Rightarrow> nat option" where
  "find_header [] j = None"
| "find_header (w # ws) j = (if is_header w then Some j else find_header ws (Suc j))"

text \<open>
  Lines 364-379.  \<open>data\<close> is the file as 64-bit words, \<open>k\<close> the loop index, \<open>pstart\<close> the
  variable of that name.  \<open>k*8 - pstart\<close> is unsigned 64-bit; \<open>memmove\<close> copies that many
  bytes from \<open>&data[pstart/8]\<close> into the 808*16-byte array \<open>packet\<close>, and \<open>ParseToMem\<close>
  reads the whole words among them.  Nothing follows the loop: the words after the last
  header found are not passed on.
\<close>

function frame_loop :: "int \<Rightarrow> int \<Rightarrow> int \<Rightarrow> int \<Rightarrow> nat \<Rightarrow> nat \<Rightarrow> u64 \<Rightarrow> u64 list \<Rightarrow> nat \<Rightarrow> nat
    \<Rightarrow> tables \<Rightarrow> (nat \<times> tables) option" where
  "frame_loop tsOffs FirstFile iFile mapflag beamCols beamRows tstart data k pstart st =
     (if k < length data then
        (if is_header (data ! k) then
           (let len = nat ((int k * 8 - int pstart) mod 2 ^ 64) in
            if len > 808 * 16 \<or> pstart div 8 * 8 + len > 8 * length data then None
            else
              (case ParseToMem (take (len div 8) (drop (pstart div 8) data)) len tsOffs FirstFile
                      iFile mapflag beamCols beamRows tstart st of
                 None \<Rightarrow> None
               | Some st' \<Rightarrow>
                   frame_loop tsOffs FirstFile iFile mapflag beamCols beamRows tstart data
                     (k + 1) (k * 8) st'))
         else frame_loop tsOffs FirstFile iFile mapflag beamCols beamRows tstart data (k + 1) pstart st)
      else Some (pstart, st))"
  by pat_completeness auto
termination
  by (relation "measure (\<lambda>(tsOffs, FirstFile, iFile, mapflag, beamCols, beamRows, tstart, data, k, pstart, st).
        length data - k)") auto

declare frame_loop.simps [simp del]

text \<open>
  One file of the loop at line 337.  \<open>firstHeader\<close> and \<open>pstart\<close> are locals of
  \<open>extract_photons\<close> declared outside the loop: they are \<open>None\<close> until a header has been
  found in some file, and a file without a header leaves them as they were.
\<close>

definition decode_file :: "int \<Rightarrow> int \<Rightarrow> int \<Rightarrow> int \<Rightarrow> nat \<Rightarrow> nat \<Rightarrow> u64 \<Rightarrow> u64 list
    \<Rightarrow> (nat \<times> nat) option \<Rightarrow> tables \<Rightarrow> ((nat \<times> nat) option \<times> tables) option" where
  "decode_file tsOffs FirstFile iFile mapflag beamCols beamRows tstart data fr st =
     (case (case find_header data 0 of Some j \<Rightarrow> Some (j, j) | None \<Rightarrow> fr) of
        None \<Rightarrow> None
      | Some (firstHeader, pstart) \<Rightarrow>
          (case frame_loop tsOffs FirstFile iFile mapflag beamCols beamRows tstart data
                  (firstHeader + 1) pstart st of
             None \<Rightarrow> None
           | Some (pstart', st') \<Rightarrow> Some (Some (firstHeader, pstart'), st')))"

fun decode_files :: "int \<Rightarrow> int \<Rightarrow> int \<Rightarrow> nat \<Rightarrow> nat \<Rightarrow> u64 \<Rightarrow> (nat \<Rightarrow> u64 list) \<Rightarrow> nat list
    \<Rightarrow> (nat \<times> nat) option \<Rightarrow> tables \<Rightarrow> ((nat \<times> nat) option \<times> tables) option" where
  "decode_files tsOffs FirstFile mapflag beamCols beamRows tstart files [] fr st = Some (fr, st)"
| "decode_files tsOffs FirstFile mapflag beamCols beamRows tstart files (i # is) fr st =
     (case decode_file tsOffs FirstFile (wrap_int32 (int i)) mapflag beamCols beamRows tstart
             (files i) fr st of
        None \<Rightarrow> None
      | Some (fr', st') \<Rightarrow>
          decode_files tsOffs FirstFile mapflag beamCols beamRows tstart files is fr' st')"

text \<open>
  Lines 394-399, the body of the last loop for one row of \<open>DiskBeamMap\<close>: the events it
  copies to \<open>otable\<close> (none when the pixel is skipped).  The source never looks at
  \<open>n_max_photons\<close>, so neither does the copy.
\<close>

definition copy_pixel :: "tables \<Rightarrow> nat \<Rightarrow> nat \<Rightarrow> beamrow \<Rightarrow> photon list option" where
  "copy_pixel st beamCols beamRows row =
     (case row of (resid, flag, x, y) \<Rightarrow>
        if \<not> (0 \<le> x \<and> x < int beamCols \<and> 0 \<le> y \<and> y < int beamRows) then None
        else if BeamMap st (nat x, nat y) = beamMapInitVal then Some []
        else if ptablect st (nat x, nat y) = 0 then Some []
        else
          (case ptable st (nat x, nat y) of
             None \<Rightarrow> None
           | Some cells \<Rightarrow>
               if length cells < unat (ptablect st (nat x, nat y)) then None
               else those (take (unat (ptablect st (nat x, nat y))) cells)))"

text \<open>
  Lines 392-400: the rows of \<open>DiskBeamMap\<close>, all \<open>beamCols*beamRows\<close> of them, in order;
  \<open>out\<close> is what has been copied to \<open>otable\<close> so far and \<open>nPhot\<close> is its length.
\<close>

fun flatten :: "tables \<Rightarrow> nat \<Rightarrow> nat \<Rightarrow> beamrow list \<Rightarrow> photon list \<Rightarrow> photon list option" where
  "flatten st beamCols beamRows [] out = Some out"
| "flatten st beamCols beamRows (row # rest) out =
     (case copy_pixel st beamCols beamRows row of
        None \<Rightarrow> None
      | Some evs \<Rightarrow> flatten st beamCols beamRows rest (out @ evs))"

text \<open>
  Lines 405-410: \<open>free(ptable[i][j])\<close> for every pixel of the map whose resID is not 0.  A
  pixel that was given no block (its resID is the initial value, which is not 0) has a
  pointer that was never set.
\<close>

fun free_pixels :: "tables \<Rightarrow> (nat \<times> nat) list \<Rightarrow> unit option" where
  "free_pixels st [] = Some ()"
| "free_pixels st (xy # rest) =
     (if BeamMap st xy = 0 then free_pixels st rest
      else (case ptable st xy of
              None \<Rightarrow> None
            | Some cells \<Rightarrow> free_pixels st rest))"

text \<open>
  \<open>extract_photons\<close>, lines 262-382: the tick origin, the tables, the beam map, the blocks
  and the loop over the files.  \<open>tsOffs\<close> is the value \<open>timegm\<close> returns for the start of the
  year of \<open>FirstFile\<close>; \<open>bm_rows\<close> and \<open>bm_tail\<close> are the beam-map file; \<open>files i\<close> is the
  content of the file \<open>FirstFile + i\<close>.  The result is \<open>DiskBeamMap\<close> and the tables.
\<close>

definition decode_run :: "int \<Rightarrow> nat \<Rightarrow> int \<Rightarrow> nat \<Rightarrow> nat \<Rightarrow> u32 \<Rightarrow> beamrow list \<Rightarrow> int list
    \<Rightarrow> (nat \<Rightarrow> u64 list) \<Rightarrow> (beamrow list \<times> tables) option" where
  "decode_run FirstFile nFiles mapflag beamCols beamRows tsOffs bm_rows bm_tail files =
     (let tstart = (word_of_int ((FirstFile - uint tsOffs) mod 2 ^ 32) :: u64) * 2000;
          st0 = \<lparr>BeamMap = InitializeBeamMap (\<lambda>_. 0) beamMapInitVal beamCols beamRows,
                 BeamFlag = InitializeBeamMap (\<lambda>_. 0) 1 beamCols beamRows,
                 ptable = (\<lambda>_. None),
                 ptablect = (\<lambda>_. 0)\<rparr>
      in case ParseBeamMapFile beamCols beamRows bm_rows bm_tail st0
                (replicate ((beamCols * beamRows) mod 2 ^ 32) (0, 0, 0, 0)) of
           None \<Rightarrow> None
         | Some (DiskBeamMapLen, st1, DiskBeamMap) \<Rightarrow>
             (case decode_files (wrap_int32 (uint tsOffs)) FirstFile mapflag beamCols beamRows
                     tstart files [0..<nFiles] None (alloc_ptable st1 beamCols beamRows) of
                None \<Rightarrow> None
              | Some (fr, st2) \<Rightarrow> Some (DiskBeamMap, st2)))"

text \<open>
  \<open>extract_photons\<close>.  \<open>dir_missing\<close> is the test \<open>ENOENT == errno\<close> after \<open>opendir\<close>.  The
  result is the value returned and what was written to \<open>otable\<close>, from index 0.  Of the
  releases of memory at the end, the loop over the photon blocks is the one that can go
  wrong.
\<close>

definition extract_photons :: "bool \<Rightarrow> nat \<Rightarrow> nat \<Rightarrow> beamrow list \<Rightarrow> int list \<Rightarrow> nat \<Rightarrow> nat \<Rightarrow> nat
    \<Rightarrow> u32 \<Rightarrow> (nat \<Rightarrow> u64 list) \<Rightarrow> (int \<times> photon list) option" where
  "extract_photons dir_missing start_timestamp integration_time bm_rows bm_tail bmap_ncol bmap_nrow
       n_max_photons tsOffs files =
     (let FirstFile = wrap_int32 (int start_timestamp);
          nFiles = (integration_time + 1) mod 2 ^ 32;
          mapflag = 1;
          beamCols = bmap_ncol;
          beamRows = bmap_nrow
      in if dir_missing then Some (- 1, [])
         else if nFiles < 1 \<or> nFiles > 1800 then Some (- 1, [])
         else
           (case decode_run FirstFile nFiles mapflag beamCols beamRows tsOffs bm_rows bm_tail files of
              None \<Rightarrow> None
            | Some (DiskBeamMap, st2) \<Rightarrow>
                (case SortPhotonTables st2 beamCols beamRows of
                   None \<Rightarrow> None
                 | Some st3 \<Rightarrow>
                     (case flatten st3 beamCols beamRows DiskBeamMap [] of
                        None \<Rightarrow> None
                      | Some out \<Rightarrow>
                          (case free_pixels st3 (pixels beamCols beamRows) of
                             None \<Rightarrow> None
                           | Some u \<Rightarrow> Some (int (length out), out))))))"

section \<open>Timestamp corrector: properties\<close>

lemma wrap_int32_id: "in_int32 x \<Longrightarrow> wrap_int32 x = x"
  by (simp add: wrap_int32_def in_int32_def)

lemma sdiv_period_nonneg: "0 \<le> a \<Longrightarrow> a sdiv (1048576::int) = a div 1048576"
  by (simp add: signed_divide_int_def sgn_if)

lemma sdiv_period_neg: "a < 0 \<Longrightarrow> a sdiv (1048576::int) = - ((- a) div 1048576)"
  by (simp add: signed_divide_int_def sgn_if)

lemma sdiv_period_mono: "a \<le> b \<Longrightarrow> a sdiv (1048576::int) \<le> b sdiv 1048576"
proof -
  assume ab: "a \<le> b"
  consider "0 \<le> a" | "a < 0" "0 \<le> b" | "b < 0" using ab by linarith
  then show ?thesis
  proof cases
    case 1
    then show ?thesis using ab by (simp add: sdiv_period_nonneg zdiv_mono1)
  next
    case 2
    have "- ((- a) div 1048576) \<le> 0" using 2 by (simp add: pos_imp_zdiv_nonneg_iff)
    moreover have "0 \<le> b div 1048576" using 2 by (simp add: pos_imp_zdiv_nonneg_iff)
    ultimately show ?thesis using 2 by (simp add: sdiv_period_nonneg sdiv_period_neg)
  next
    case 3
    then have "a < 0" using ab by simp
    have "(- b) div 1048576 \<le> (- a) div 1048576" using ab by (simp add: zdiv_mono1)
    then show ?thesis using 3 \<open>a < 0\<close> by (simp add: sdiv_period_neg)
  qed
qed

lemma sdiv_period_zero: "- 1048576 < a \<Longrightarrow> a < 1048576 \<Longrightarrow> a sdiv (1048576::int) = 0"
  by (cases "0 \<le> a") (simp_all add: sdiv_period_nonneg sdiv_period_neg)

lemma nWraps_in_range:
  assumes "- (2 ^ 31) \<le> f - e - int (ts div 2000)" and "f - e + 3 < 2 ^ 31"
  shows "nWraps ts f e = (f - e - int (ts div 2000) + 3) sdiv 1048576"
proof -
  have a: "in_int32 (f - e)" using assms by (simp add: in_int32_def)
  have b: "in_int32 (f - e - int (ts div 2000))" using assms by (simp add: in_int32_def)
  have c: "in_int32 (f - e - int (ts div 2000) + 3)" using assms by (simp add: in_int32_def)
  show ?thesis by (simp add: nWraps_def fudgeFactor_def wrap_int32_id a b c)
qed

lemma FixOverflowTimestamps_small_wraps:
  assumes "\<bar>nWraps ts f e\<bar> \<le> 1"
  shows "FixOverflowTimestamps ts f e = nat ((int ts + 2000 * nWraps ts f e * 1048576) mod 2 ^ 36)"
proof -
  have a: "in_int32 (2000 * nWraps ts f e)"
    using assms unfolding in_int32_def by simp linarith
  have b: "in_int32 (2000 * nWraps ts f e * 1048576)"
    using assms unfolding in_int32_def by simp linarith
  have "wrap_int32 (wrap_int32 (2000 * nWraps ts f e) * 1048576) = 2000 * nWraps ts f e * 1048576"
    by (simp only: wrap_int32_id [OF a] wrap_int32_id [OF b])
  then show ?thesis by (simp only: FixOverflowTimestamps_def)
qed

text \<open>
  C2, as stated, fails: C's \<open>/\<close> truncates towards zero, so a header 10 s ahead of the file
  time (numerator \<open>-7\<close>) gives 0 wraps, where the floor is \<open>-1\<close>.
\<close>

theorem nWraps_floor_counterexample:
  "nWraps 20000 1514764800 1514764800
     \<noteq> (1514764800 - 1514764800 - int (20000 div 2000) + 3) div 1048576"
  by (simp add: nWraps_def wrap_int32_def fudgeFactor_def signed_divide_int_def)

text \<open>
  C2, amended.  For a 36-bit timestamp \<open>ts\<close>, file second \<open>f\<close> and year offset \<open>e\<close> whose
  difference stays within \<open>int\<close>, \<open>nWraps\<close> is the quotient of
  \<open>f - e - ts/2000 + 3\<close> by 1048576 truncated towards zero; it is the floor when that
  numerator is not negative; with at most one wrap either way the timestamp becomes
  \<open>ts + 2000 * nWraps * 1048576\<close> in the 36-bit field; \<open>nWraps\<close> is 0 (and the timestamp
  unchanged) while the numerator is less than one period in size, 1 when the gap
  \<open>f - e - ts/2000\<close> is exactly one period, and it never decreases as the gap grows.
\<close>

theorem FixOverflowTimestamps_truncating_wraps:
  assumes "ts < 2 ^ 36"
    and "- (2 ^ 31) \<le> f - e - int (ts div 2000)" and "f - e + 3 < 2 ^ 31"
  shows "nWraps ts f e = (f - e - int (ts div 2000) + 3) sdiv 1048576
    \<and> (0 \<le> f - e - int (ts div 2000) + 3
         \<longrightarrow> nWraps ts f e = (f - e - int (ts div 2000) + 3) div 1048576)
    \<and> (\<bar>nWraps ts f e\<bar> \<le> 1
         \<longrightarrow> FixOverflowTimestamps ts f e = nat ((int ts + 2000 * nWraps ts f e * 1048576) mod 2 ^ 36))
    \<and> (- 1048576 < f - e - int (ts div 2000) + 3 \<and> f - e - int (ts div 2000) + 3 < 1048576
         \<longrightarrow> nWraps ts f e = 0 \<and> FixOverflowTimestamps ts f e = ts)
    \<and> (f - e - int (ts div 2000) = 1048576 \<longrightarrow> nWraps ts f e = 1)
    \<and> (- (2 ^ 31) \<le> f' - e' - int (ts' div 2000) \<and> f' - e' + 3 < 2 ^ 31
         \<and> f - e - int (ts div 2000) \<le> f' - e' - int (ts' div 2000)
         \<longrightarrow> nWraps ts f e \<le> nWraps ts' f' e')"
proof -
  let ?n = "f - e - int (ts div 2000) + 3"
  have w: "nWraps ts f e = ?n sdiv 1048576"
    using assms(2,3) by (rule nWraps_in_range)
  have fl: "0 \<le> ?n \<longrightarrow> nWraps ts f e = ?n div 1048576"
    using w by (simp add: sdiv_period_nonneg)
  have upd: "\<bar>nWraps ts f e\<bar> \<le> 1
      \<longrightarrow> FixOverflowTimestamps ts f e = nat ((int ts + 2000 * nWraps ts f e * 1048576) mod 2 ^ 36)"
    by (simp add: FixOverflowTimestamps_small_wraps)
  have zero: "- 1048576 < ?n \<and> ?n < 1048576
      \<longrightarrow> nWraps ts f e = 0 \<and> FixOverflowTimestamps ts f e = ts"
  proof
    assume r: "- 1048576 < ?n \<and> ?n < 1048576"
    then have z: "nWraps ts f e = 0" using w by (simp add: sdiv_period_zero)
    then have "FixOverflowTimestamps ts f e = nat (int ts mod 2 ^ 36)"
      using FixOverflowTimestamps_small_wraps [of ts f e] by simp
    also have "\<dots> = ts" using assms(1) by simp
    finally show "nWraps ts f e = 0 \<and> FixOverflowTimestamps ts f e = ts" using z by simp
  qed
  have one: "f - e - int (ts div 2000) = 1048576 \<longrightarrow> nWraps ts f e = 1"
    using w by (simp add: sdiv_period_nonneg)
  have mono: "- (2 ^ 31) \<le> f' - e' - int (ts' div 2000) \<and> f' - e' + 3 < 2 ^ 31
         \<and> f - e - int (ts div 2000) \<le> f' - e' - int (ts' div 2000)
         \<longrightarrow> nWraps ts f e \<le> nWraps ts' f' e'"
  proof
    assume h: "- (2 ^ 31) \<le> f' - e' - int (ts' div 2000) \<and> f' - e' + 3 < 2 ^ 31
         \<and> f - e - int (ts div 2000) \<le> f' - e' - int (ts' div 2000)"
    then have "nWraps ts' f' e' = (f' - e' - int (ts' div 2000) + 3) sdiv 1048576"
      by (simp add: nWraps_in_range)
    moreover have "?n sdiv 1048576 \<le> (f' - e' - int (ts' div 2000) + 3) sdiv 1048576"
      using h by (intro sdiv_period_mono) simp
    ultimately show "nWraps ts f e \<le> nWraps ts' f' e'" using w by simp
  qed
  show ?thesis using w fl upd zero one mono by blast
qed

theorem FixOverflowTimestamps_truncating_wraps_witness:
  "(20000::nat) < 2 ^ 36
   \<and> nWraps 20000 1515813386 1514764800 = 1
   \<and> FixOverflowTimestamps 20000 1515813386 1514764800 = 2097172000
   \<and> nWraps 20000 1514764800 1514764800 \<le> nWraps 20000 1515813386 1514764800"
  using FixOverflowTimestamps_truncating_wraps [of 20000 1515813386 1514764800 1514764800 1514764800 20000]
    FixOverflowTimestamps_truncating_wraps [of 20000 1514764800 1514764800 1515813386 1514764800 20000]
  by simp

section \<open>Packet decoder: properties\<close>

lemma basetime_of_eq:
  assumes "- (2 ^ 63) \<le> int ts - uint tstart" and "int ts - uint tstart < 2 ^ 63"
  shows "basetime_of ts tstart = int ts - uint tstart"
proof -
  have "(word_of_nat ts - tstart :: u64) = word_of_int (int ts - uint tstart)"
    by simp
  then have "basetime_of ts tstart = signed_take_bit 63 (int ts - uint tstart)"
    unfolding basetime_of_def by (simp only: sint_sbintrunc') simp
  also have "\<dots> = int ts - uint tstart"
    using assms by (simp add: signed_take_bit_int_eq_self)
  finally show ?thesis .
qed

lemma parse_word_skip:
  assumes "data_xcoord w \<ge> beamCols \<or> data_ycoord w \<ge> beamRows
      \<or> (mapflag > 0 \<and> BeamFlag st (data_xcoord w, data_ycoord w) > 0)"
  shows "parse_word basetime mapflag beamCols beamRows w st = Some st"
  using assms by (auto simp: parse_word_def Let_def)

lemma parse_word_BeamFlag:
  "parse_word basetime mapflag beamCols beamRows w st = Some st' \<Longrightarrow> BeamFlag st' = BeamFlag st"
  by (auto simp: parse_word_def Let_def split: if_splits option.splits)

lemma uint_word32_of_int: "uint (word_of_int k :: u32) = k mod 2 ^ 32"
  by (simp add: uint_word_of_int take_bit_eq_mod)

lemma photon_of_timestamp:
  "uint (timestamp (photon_of r b w)) = (b * 500 + int (data_timestamp w)) mod 2 ^ 32"
proof -
  have "timestamp (photon_of r b w) = word_of_int (b * 500 + int (data_timestamp w))"
    by (simp only: photon_of_def photon.select_convs)
  then show ?thesis by (simp only: uint_word32_of_int)
qed

lemma parse_word_appends:
  assumes "parse_word basetime mapflag beamCols beamRows w st = Some st'"
    and "data_xcoord w < beamCols" and "data_ycoord w < beamRows"
    and "\<not> (mapflag > 0 \<and> BeamFlag st (data_xcoord w, data_ycoord w) > 0)"
  shows "\<exists>cells. ptable st' (data_xcoord w, data_ycoord w) = Some cells
      \<and> unat (ptablect st (data_xcoord w, data_ycoord w)) < length cells
      \<and> cells ! unat (ptablect st (data_xcoord w, data_ycoord w))
          = Some (photon_of (BeamMap st (data_xcoord w, data_ycoord w)) basetime w)
      \<and> ptablect st' (data_xcoord w, data_ycoord w) = ptablect st (data_xcoord w, data_ycoord w) + 1"
  using assms
  by (auto simp: parse_word_def Let_def append_photon_def split: if_splits option.splits)

text \<open>
  C6.  A packet whose corrected header timestamp is earlier than the tick origin
  (\<open>headerTimestamp - tstart < 0\<close>) leaves every table as it was: no event is appended.
  The tick origin is below \<open>2 ^ 63\<close> (\<open>extract_photons\<close> keeps it below \<open>2 ^ 43\<close>), so the
  unsigned difference read as \<open>int64_t\<close> is the negative number.
\<close>

theorem ParseToMem_early_packet_dropped:
  assumes "packet \<noteq> []" and "l div 8 \<le> length packet" and "uint tstart < 2 ^ 63"
    and "int (FixOverflowTimestamps (hdr_timestamp (bswap_64 (packet ! 0)))
               (wrap_int32 (FirstFile + iFile)) tsOffs) - uint tstart < 0"
  shows "ParseToMem packet l tsOffs FirstFile iFile mapflag beamCols beamRows tstart st = Some st"
proof -
  let ?ts = "FixOverflowTimestamps (hdr_timestamp (bswap_64 (packet ! 0)))
               (wrap_int32 (FirstFile + iFile)) tsOffs"
  have "- (2 ^ 63) \<le> int ?ts - uint tstart" using assms(3) by simp
  moreover have "int ?ts - uint tstart < 2 ^ 63" using assms(4) by simp
  ultimately have "basetime_of ?ts tstart = int ?ts - uint tstart" by (rule basetime_of_eq)
  then have "basetime_of ?ts tstart < 0" using assms(4) by simp
  then show ?thesis using assms(1,2) by (simp add: ParseToMem_def Let_def)
qed

theorem ParseToMem_early_packet_dropped_witness:
  "hdr_start (bswap_64 0xFF) = 0xFF
   \<and> int (FixOverflowTimestamps (hdr_timestamp (bswap_64 0xFF)) (wrap_int32 (0 + 0)) 0)
       - uint (2000 :: u64) < 0
   \<and> ParseToMem [0xFF, 0] 16 0 0 0 1 1 1 2000
        \<lparr>BeamMap = \<lambda>_. 7, BeamFlag = \<lambda>_. 0, ptable = \<lambda>_. Some (malloc_photons 2500), ptablect = \<lambda>_. 0\<rparr>
       = Some \<lparr>BeamMap = \<lambda>_. 7, BeamFlag = \<lambda>_. 0, ptable = \<lambda>_. Some (malloc_photons 2500),
               ptablect = \<lambda>_. 0\<rparr>"
proof -
  have h: "hdr_timestamp (bswap_64 0xFF) = 0" "hdr_start (bswap_64 0xFF) = 0xFF"
    by (simp_all add: hdr_timestamp_def hdr_start_def bswap_64_def)
  have f: "FixOverflowTimestamps 0 (wrap_int32 (0 + 0)) 0 = 0"
    by (simp add: FixOverflowTimestamps_def nWraps_def wrap_int32_def fudgeFactor_def
        signed_divide_int_def)
  have e: "int (FixOverflowTimestamps (hdr_timestamp (bswap_64 ([0xFF, 0] ! 0))) (wrap_int32 (0 + 0)) 0)
       - uint (2000 :: u64) < 0"
    using f by (simp add: h)
  show ?thesis
    using ParseToMem_early_packet_dropped [of "[0xFF, 0]" 16 2000 0 0 0 1 1 1, OF _ _ _ e] h f
    by simp
qed

text \<open>
  C10.  The event a data word appends is stored at index \<open>ptablect[x][y]\<close> of the pixel's
  block, and its timestamp field is \<open>basetime * 500 + data->timestamp\<close> reduced modulo
  \<open>2 ^ 32\<close>; once that sum reaches \<open>2 ^ 32\<close> the stored value is smaller than the sum.
\<close>

theorem stored_timestamp_mod_2_32:
  assumes "parse_word basetime mapflag beamCols beamRows w st = Some st'"
    and "data_xcoord w < beamCols" and "data_ycoord w < beamRows"
    and "\<not> (mapflag > 0 \<and> BeamFlag st (data_xcoord w, data_ycoord w) > 0)"
  shows "\<exists>cells ev. ptable st' (data_xcoord w, data_ycoord w) = Some cells
      \<and> unat (ptablect st (data_xcoord w, data_ycoord w)) < length cells
      \<and> cells ! unat (ptablect st (data_xcoord w, data_ycoord w)) = Some ev
      \<and> ptablect st' (data_xcoord w, data_ycoord w) = ptablect st (data_xcoord w, data_ycoord w) + 1
      \<and> uint (timestamp ev) = (basetime * 500 + int (data_timestamp w)) mod 2 ^ 32
      \<and> (2 ^ 32 \<le> basetime * 500 + int (data_timestamp w)
           \<longrightarrow> uint (timestamp ev) < basetime * 500 + int (data_timestamp w))"
proof -
  let ?k = "basetime * 500 + int (data_timestamp w)"
  let ?ev = "photon_of (BeamMap st (data_xcoord w, data_ycoord w)) basetime w"
  have m: "?k mod 2 ^ 32 < 2 ^ 32" by simp
  have t: "uint (timestamp ?ev) = ?k mod 2 ^ 32" by (rule photon_of_timestamp)
  have wr: "2 ^ 32 \<le> ?k \<longrightarrow> uint (timestamp ?ev) < ?k" using m t by linarith
  from parse_word_appends [OF assms] obtain cells where
    c: "ptable st' (data_xcoord w, data_ycoord w) = Some cells"
       "unat (ptablect st (data_xcoord w, data_ycoord w)) < length cells"
       "cells ! unat (ptablect st (data_xcoord w, data_ycoord w)) = Some ?ev"
       "ptablect st' (data_xcoord w, data_ycoord w) = ptablect st (data_xcoord w, data_ycoord w) + 1"
    by blast
  show ?thesis using c t wr by blast
qed

theorem stored_timestamp_mod_2_32_witness:
  "\<exists>st' cells ev.
     parse_word 8589935 1 1 1 0
       \<lparr>BeamMap = \<lambda>_. 7, BeamFlag = \<lambda>_. 0, ptable = \<lambda>_. Some [None, None], ptablect = \<lambda>_. 0\<rparr> = Some st'
     \<and> ptable st' (0, 0) = Some cells \<and> cells ! 0 = Some ev
     \<and> uint (timestamp ev) = 204 \<and> uint (timestamp ev) < 8589935 * 500 + 0"
proof -
  let ?st = "\<lparr>BeamMap = \<lambda>_. 7, BeamFlag = \<lambda>_. 0, ptable = \<lambda>_. Some [None, None], ptablect = \<lambda>_. 0\<rparr>"
  have d: "data_xcoord 0 = 0" "data_ycoord 0 = 0" "data_timestamp 0 = 0"
    by (simp_all add: data_xcoord_def data_ycoord_def data_timestamp_def)
  obtain st' where e: "parse_word 8589935 1 1 1 0 ?st = Some st'"
    by (simp add: parse_word_def Let_def d append_photon_def)
  show ?thesis
    using stored_timestamp_mod_2_32 [OF e] e d by auto
qed

section \<open>Per-pixel event store: properties\<close>

lemma chunk_decomp:
  fixes n :: nat
  obtains q r where "n = 2500 * q + r" and "r < 2500" and "n mod 2500 = r" and "n div 2500 = q"
proof
  show "n = 2500 * (n div 2500) + n mod 2500" by simp
  show "n mod 2500 < 2500" by simp
qed simp_all







lemma unat_u32_Suc: "unat ct + 1 < 2 ^ 32 \<Longrightarrow> unat (ct + 1 :: u32) = unat ct + 1"
  by (simp add: unat_word_ariths)





section \<open>Packet decoder: which words are appended\<close>

lemma cursize_room: "n < 2500 * (cursize n + 1)"
proof -
  obtain q r where n: "n + 2499 = 2500 * q + r" and r: "r < 2500" and d: "(n + 2499) div 2500 = q"
    using chunk_decomp [of "n + 2499"] by metis
  have "n < 2500 * q + 2500" using n r by linarith
  then show ?thesis unfolding cursize_def d by simp
qed

text \<open>
  An append that succeeds on a block holding at least \<open>ct\<close> cells: the count goes up by one,
  the event is in cell \<open>ct\<close>, and the cells before it are kept.
\<close>

lemma append_photon_keeps:
  assumes "append_photon (Some cells) ct ev = Some (cells', ct')" and "unat ct \<le> length cells"
  shows "ct' = ct + 1 \<and> unat ct < length cells' \<and> cells' ! unat ct = Some ev
      \<and> take (unat ct) cells' = take (unat ct) cells"
proof (cases "unat ct mod 2500 = 2498")
  case True
  let ?big = "realloc_photons cells (2500 * (cursize (unat ct) + 1))"
  have k: "take (unat ct) ?big = take (unat ct) cells"
    unfolding realloc_photons_def using assms(2) cursize_room [of "unat ct"] by simp
  have "cells' = ?big[unat ct := Some ev] \<and> ct' = ct + 1 \<and> unat ct < length ?big"
    using assms(1) True by (auto simp: append_photon_def split: if_splits)
  then show ?thesis using k by simp
next
  case False
  have "cells' = cells[unat ct := Some ev] \<and> ct' = ct + 1 \<and> unat ct < length cells"
    using assms(1) False by (auto simp: append_photon_def split: if_splits)
  then show ?thesis by simp
qed

lemma parse_word_BeamMap:
  "parse_word basetime mapflag beamCols beamRows w st = Some st' \<Longrightarrow> BeamMap st' = BeamMap st"
  by (auto simp: parse_word_def Let_def split: if_splits option.splits)

lemma parse_word_elsewhere:
  assumes "parse_word basetime mapflag beamCols beamRows w st = Some st'"
    and "(data_xcoord w, data_ycoord w) \<noteq> xy"
  shows "ptable st' xy = ptable st xy \<and> ptablect st' xy = ptablect st xy"
  using assms by (auto simp: parse_word_def Let_def split: if_splits option.splits)

lemma parse_word_here:
  assumes "parse_word basetime mapflag beamCols beamRows w st = Some st'"
    and "(data_xcoord w, data_ycoord w) = xy"
    and "fst xy < beamCols" and "snd xy < beamRows" and "\<not> (mapflag > 0 \<and> BeamFlag st xy > 0)"
    and "ptable st xy = Some cells"
  shows "\<exists>cells' ct'. append_photon (Some cells) (ptablect st xy) (photon_of (BeamMap st xy) basetime w)
          = Some (cells', ct')
      \<and> ptable st' xy = Some cells' \<and> ptablect st' xy = ct'"
  using assms by (auto simp: parse_word_def Let_def split: if_splits option.splits)

text \<open>
  The loop over any sequence of data words, seen from one pixel whose block holds \<open>evs\<close> in
  its first \<open>ptablect\<close> cells: when the loop returns, the block holds \<open>evs\<close> followed by the
  events of exactly the words that address the pixel and are not skipped, in their order.
\<close>

lemma parse_words_appends_in_order:
  "parse_words basetime mapflag beamCols beamRows ws st = Some st'
   \<Longrightarrow> ptable st xy = Some cells \<Longrightarrow> unat (ptablect st xy) \<le> length cells
   \<Longrightarrow> take (unat (ptablect st xy)) cells = map Some evs
   \<Longrightarrow> unat (ptablect st xy)
         + length (filter (\<lambda>w. (data_xcoord w, data_ycoord w) = xy \<and> fst xy < beamCols
              \<and> snd xy < beamRows \<and> \<not> (mapflag > 0 \<and> BeamFlag st xy > 0)) ws) < 2 ^ 32
   \<Longrightarrow> \<exists>cells'. ptable st' xy = Some cells'
      \<and> unat (ptablect st' xy) = unat (ptablect st xy)
           + length (filter (\<lambda>w. (data_xcoord w, data_ycoord w) = xy \<and> fst xy < beamCols
              \<and> snd xy < beamRows \<and> \<not> (mapflag > 0 \<and> BeamFlag st xy > 0)) ws)
      \<and> unat (ptablect st' xy) \<le> length cells'
      \<and> take (unat (ptablect st' xy)) cells'
          = map Some (evs @ map (photon_of (BeamMap st xy) basetime)
              (filter (\<lambda>w. (data_xcoord w, data_ycoord w) = xy \<and> fst xy < beamCols
                 \<and> snd xy < beamRows \<and> \<not> (mapflag > 0 \<and> BeamFlag st xy > 0)) ws))"
proof (induction ws arbitrary: st cells evs)
  case Nil
  then show ?case by simp
next
  case (Cons w ws)
  let ?P = "\<lambda>s w. (data_xcoord w, data_ycoord w) = xy \<and> fst xy < beamCols
              \<and> snd xy < beamRows \<and> \<not> (mapflag > 0 \<and> BeamFlag s xy > 0)"
  let ?n = "unat (ptablect st xy)"
  from Cons.prems(1) obtain st1 where
    a: "parse_word basetime mapflag beamCols beamRows w st = Some st1"
    and r: "parse_words basetime mapflag beamCols beamRows ws st1 = Some st'"
    by (auto split: option.splits)
  have bf: "BeamFlag st1 = BeamFlag st" using a by (rule parse_word_BeamFlag)
  have bm: "BeamMap st1 = BeamMap st" using a by (rule parse_word_BeamMap)
  have pq: "?P st1 = ?P st" using bf by simp
  show ?case
  proof (cases "?P st w")
    case False
    have same: "ptable st1 xy = ptable st xy \<and> ptablect st1 xy = ptablect st xy"
    proof (cases "(data_xcoord w, data_ycoord w) = xy")
      case True
      then have "data_xcoord w \<ge> beamCols \<or> data_ycoord w \<ge> beamRows
          \<or> (mapflag > 0 \<and> BeamFlag st (data_xcoord w, data_ycoord w) > 0)"
        using False by auto
      then have "parse_word basetime mapflag beamCols beamRows w st = Some st"
        by (rule parse_word_skip)
      then show ?thesis using a by simp
    next
      case False
      then show ?thesis using a by (intro parse_word_elsewhere)
    qed
    have f: "filter (?P st) (w # ws) = filter (?P st) ws" using False by simp
    have p2: "ptable st1 xy = Some cells" using same Cons.prems(2) by simp
    have p3: "unat (ptablect st1 xy) \<le> length cells" using same Cons.prems(3) by simp
    have p4: "take (unat (ptablect st1 xy)) cells = map Some evs" using same Cons.prems(4) by simp
    have p5: "unat (ptablect st1 xy) + length (filter (?P st1) ws) < 2 ^ 32"
      using same Cons.prems(5) unfolding pq f by simp
    from Cons.IH [OF r p2 p3 p4 p5] show ?thesis
      unfolding pq f bm using same by simp
  next
    case True
    let ?ev = "photon_of (BeamMap st xy) basetime w"
    have f: "filter (?P st) (w # ws) = w # filter (?P st) ws" using True by simp
    from parse_word_here [OF a _ _ _ _ Cons.prems(2)] True obtain cells1 ct1 where
      ap: "append_photon (Some cells) (ptablect st xy) ?ev = Some (cells1, ct1)"
      and s1: "ptable st1 xy = Some cells1" "ptablect st1 xy = ct1"
      by blast
    have k: "ct1 = ptablect st xy + 1" "?n < length cells1" "cells1 ! ?n = Some ?ev"
      "take ?n cells1 = take ?n cells"
      using append_photon_keeps [OF ap Cons.prems(3)] by blast+
    have room: "?n + 1 < 2 ^ 32" using Cons.prems(5) unfolding f by simp
    have u: "unat ct1 = ?n + 1" unfolding k(1) using room by (rule unat_u32_Suc)
    have p3: "unat (ptablect st1 xy) \<le> length cells1" using s1(2) u k(2) by simp
    have p4: "take (unat (ptablect st1 xy)) cells1 = map Some (evs @ [?ev])"
      using s1(2) u k Cons.prems(4) by (simp add: take_Suc_conv_app_nth)
    have p5: "unat (ptablect st1 xy) + length (filter (?P st1) ws) < 2 ^ 32"
      using s1(2) u Cons.prems(5) unfolding pq f by simp
    from Cons.IH [OF r s1(1) p3 p4 p5] show ?thesis
      unfolding pq f bm using s1(2) u by simp
  qed
qed

lemma ParseToMem_is_loop:
  assumes "packet \<noteq> []" and "l div 8 \<le> length packet"
    and "hdr_start (bswap_64 (packet ! 0)) = 0xFF"
    and "0 \<le> basetime_of (FixOverflowTimestamps (hdr_timestamp (bswap_64 (packet ! 0)))
                 (wrap_int32 (FirstFile + iFile)) tsOffs) tstart"
  shows "ParseToMem packet l tsOffs FirstFile iFile mapflag beamCols beamRows tstart st
    = parse_words (basetime_of (FixOverflowTimestamps (hdr_timestamp (bswap_64 (packet ! 0)))
                 (wrap_int32 (FirstFile + iFile)) tsOffs) tstart)
        mapflag beamCols beamRows (map bswap_64 (take (l div 8 - 1) (drop 1 packet))) st"
  using assms by (simp add: ParseToMem_def Let_def)

text \<open>
  C8.  A data word whose column is at or beyond \<open>beamCols\<close>, or whose row is at or beyond
  \<open>beamRows\<close>, or (with \<open>mapflag > 0\<close>) whose pixel has a non-zero flag, appends nothing and
  stops nothing: the tables stay as they are, and the loop over a packet's data words gives
  what it gives on the words that remain when these are left out.  \<open>ParseToMem\<close> on a packet
  with a good header and a base time that is not negative is that loop over the packet's
  data words.  Every other word is processed: when the loop returns, each pixel's block
  holds what it held, followed by the events of exactly the words that address the pixel
  and are not skipped, in the order of the words.
\<close>

theorem parse_words_skips_invalid_words:
  "(data_xcoord w \<ge> beamCols \<or> data_ycoord w \<ge> beamRows
      \<or> (mapflag > 0 \<and> BeamFlag st (data_xcoord w, data_ycoord w) > 0)
     \<longrightarrow> parse_word basetime mapflag beamCols beamRows w st = Some st)
   \<and> parse_words basetime mapflag beamCols beamRows ws st =
     parse_words basetime mapflag beamCols beamRows
       (filter (\<lambda>w. \<not> (data_xcoord w \<ge> beamCols \<or> data_ycoord w \<ge> beamRows
          \<or> (mapflag > 0 \<and> BeamFlag st (data_xcoord w, data_ycoord w) > 0))) ws) st
   \<and> (packet \<noteq> [] \<and> l div 8 \<le> length packet \<and> hdr_start (bswap_64 (packet ! 0)) = 0xFF
        \<and> 0 \<le> basetime_of (FixOverflowTimestamps (hdr_timestamp (bswap_64 (packet ! 0)))
                   (wrap_int32 (FirstFile + iFile)) tsOffs) tstart
      \<longrightarrow> ParseToMem packet l tsOffs FirstFile iFile mapflag beamCols beamRows tstart st
          = parse_words (basetime_of (FixOverflowTimestamps (hdr_timestamp (bswap_64 (packet ! 0)))
                   (wrap_int32 (FirstFile + iFile)) tsOffs) tstart)
              mapflag beamCols beamRows (map bswap_64 (take (l div 8 - 1) (drop 1 packet))) st)
   \<and> (parse_words basetime mapflag beamCols beamRows ws st = Some st'
        \<and> ptable st xy = Some cells \<and> unat (ptablect st xy) \<le> length cells
        \<and> take (unat (ptablect st xy)) cells = map Some evs
        \<and> unat (ptablect st xy)
             + length (filter (\<lambda>w. (data_xcoord w, data_ycoord w) = xy \<and> fst xy < beamCols
                  \<and> snd xy < beamRows \<and> \<not> (mapflag > 0 \<and> BeamFlag st xy > 0)) ws) < 2 ^ 32
      \<longrightarrow> (\<exists>cells'. ptable st' xy = Some cells'
            \<and> unat (ptablect st' xy) = unat (ptablect st xy)
                 + length (filter (\<lambda>w. (data_xcoord w, data_ycoord w) = xy \<and> fst xy < beamCols
                      \<and> snd xy < beamRows \<and> \<not> (mapflag > 0 \<and> BeamFlag st xy > 0)) ws)
            \<and> take (unat (ptablect st' xy)) cells'
                = map Some (evs @ map (photon_of (BeamMap st xy) basetime)
                    (filter (\<lambda>w. (data_xcoord w, data_ycoord w) = xy \<and> fst xy < beamCols
                       \<and> snd xy < beamRows \<and> \<not> (mapflag > 0 \<and> BeamFlag st xy > 0)) ws))))"
proof -
  have skip: "data_xcoord w \<ge> beamCols \<or> data_ycoord w \<ge> beamRows
      \<or> (mapflag > 0 \<and> BeamFlag st (data_xcoord w, data_ycoord w) > 0)
     \<longrightarrow> parse_word basetime mapflag beamCols beamRows w st = Some st"
    using parse_word_skip [of beamCols w beamRows mapflag st basetime] by blast
  have left_out: "parse_words basetime mapflag beamCols beamRows ws st =
     parse_words basetime mapflag beamCols beamRows
       (filter (\<lambda>w. \<not> (data_xcoord w \<ge> beamCols \<or> data_ycoord w \<ge> beamRows
          \<or> (mapflag > 0 \<and> BeamFlag st (data_xcoord w, data_ycoord w) > 0))) ws) st"
  proof (induction ws arbitrary: st)
    case Nil
    then show ?case by simp
  next
    case (Cons v vs)
    show ?case
    proof (cases "data_xcoord v \<ge> beamCols \<or> data_ycoord v \<ge> beamRows
          \<or> (mapflag > 0 \<and> BeamFlag st (data_xcoord v, data_ycoord v) > 0)")
      case True
      then have "parse_word basetime mapflag beamCols beamRows v st = Some st"
        by (rule parse_word_skip)
      then show ?thesis using True Cons.IH [of st] by simp
    next
      case False
      show ?thesis
      proof (cases "parse_word basetime mapflag beamCols beamRows v st")
        case None
        then show ?thesis using False by simp
      next
        case (Some st1)
        then have "BeamFlag st1 = BeamFlag st" by (rule parse_word_BeamFlag)
        then show ?thesis using False Some Cons.IH [of st1] by simp
      qed
    qed
  qed
  have loop: "packet \<noteq> [] \<and> l div 8 \<le> length packet \<and> hdr_start (bswap_64 (packet ! 0)) = 0xFF
        \<and> 0 \<le> basetime_of (FixOverflowTimestamps (hdr_timestamp (bswap_64 (packet ! 0)))
                   (wrap_int32 (FirstFile + iFile)) tsOffs) tstart
      \<longrightarrow> ParseToMem packet l tsOffs FirstFile iFile mapflag beamCols beamRows tstart st
          = parse_words (basetime_of (FixOverflowTimestamps (hdr_timestamp (bswap_64 (packet ! 0)))
                   (wrap_int32 (FirstFile + iFile)) tsOffs) tstart)
              mapflag beamCols beamRows (map bswap_64 (take (l div 8 - 1) (drop 1 packet))) st"
    using ParseToMem_is_loop [of packet l FirstFile iFile tsOffs tstart mapflag beamCols beamRows st]
    by blast
  have kept: "parse_words basetime mapflag beamCols beamRows ws st = Some st'
        \<and> ptable st xy = Some cells \<and> unat (ptablect st xy) \<le> length cells
        \<and> take (unat (ptablect st xy)) cells = map Some evs
        \<and> unat (ptablect st xy)
             + length (filter (\<lambda>w. (data_xcoord w, data_ycoord w) = xy \<and> fst xy < beamCols
                  \<and> snd xy < beamRows \<and> \<not> (mapflag > 0 \<and> BeamFlag st xy > 0)) ws) < 2 ^ 32
      \<longrightarrow> (\<exists>cells'. ptable st' xy = Some cells'
            \<and> unat (ptablect st' xy) = unat (ptablect st xy)
                 + length (filter (\<lambda>w. (data_xcoord w, data_ycoord w) = xy \<and> fst xy < beamCols
                      \<and> snd xy < beamRows \<and> \<not> (mapflag > 0 \<and> BeamFlag st xy > 0)) ws)
            \<and> take (unat (ptablect st' xy)) cells'
                = map Some (evs @ map (photon_of (BeamMap st xy) basetime)
                    (filter (\<lambda>w. (data_xcoord w, data_ycoord w) = xy \<and> fst xy < beamCols
                       \<and> snd xy < beamRows \<and> \<not> (mapflag > 0 \<and> BeamFlag st xy > 0)) ws)))"
  proof
    assume h: "parse_words basetime mapflag beamCols beamRows ws st = Some st'
        \<and> ptable st xy = Some cells \<and> unat (ptablect st xy) \<le> length cells
        \<and> take (unat (ptablect st xy)) cells = map Some evs
        \<and> unat (ptablect st xy)
             + length (filter (\<lambda>w. (data_xcoord w, data_ycoord w) = xy \<and> fst xy < beamCols
                  \<and> snd xy < beamRows \<and> \<not> (mapflag > 0 \<and> BeamFlag st xy > 0)) ws) < 2 ^ 32"
    from parse_words_appends_in_order [of basetime mapflag beamCols beamRows ws st st' xy cells evs] h
    show "\<exists>cells'. ptable st' xy = Some cells'
            \<and> unat (ptablect st' xy) = unat (ptablect st xy)
                 + length (filter (\<lambda>w. (data_xcoord w, data_ycoord w) = xy \<and> fst xy < beamCols
                      \<and> snd xy < beamRows \<and> \<not> (mapflag > 0 \<and> BeamFlag st xy > 0)) ws)
            \<and> take (unat (ptablect st' xy)) cells'
                = map Some (evs @ map (photon_of (BeamMap st xy) basetime)
                    (filter (\<lambda>w. (data_xcoord w, data_ycoord w) = xy \<and> fst xy < beamCols
                       \<and> snd xy < beamRows \<and> \<not> (mapflag > 0 \<and> BeamFlag st xy > 0)) ws))"
      by blast
  qed
  show ?thesis using skip left_out loop kept by (intro conjI)
qed

text \<open>
  A packet of a header, a word for column 5 of a one-column map, a word for pixel
  \<open>(0, 0)\<close>, the first word again and a second word for pixel \<open>(0, 0)\<close> (sub-timestamp 1):
  the two words for the pixel are appended, in order.
\<close>

theorem parse_words_skips_invalid_words_witness:
  "\<exists>st' cells'.
     ParseToMem [0xFF, 0x4001, 0, 0x4001, 0x08000000] 40 0 0 0 1 1 1 0
       \<lparr>BeamMap = \<lambda>_. 7, BeamFlag = \<lambda>_. 0, ptable = \<lambda>_. Some (malloc_photons 2500), ptablect = \<lambda>_. 0\<rparr>
       = Some st'
     \<and> data_xcoord (bswap_64 0x4001) \<ge> (1::nat)
     \<and> ptable st' (0, 0) = Some cells' \<and> unat (ptablect st' (0, 0)) = 2
     \<and> take 2 cells' = [Some (photon_of 7 0 0), Some (photon_of 7 0 0x800000000)]"
proof -
  let ?st = "\<lparr>BeamMap = \<lambda>_. 7, BeamFlag = \<lambda>_. 0, ptable = \<lambda>_. Some (malloc_photons 2500),
              ptablect = \<lambda>_. 0\<rparr>"
  let ?packet = "[0xFF, 0x4001, 0, 0x4001, 0x08000000] :: u64 list"
  let ?ws = "[0x0140000000000000, 0, 0x0140000000000000, 0x800000000] :: u64 list"
  note facts = parse_words_skips_invalid_words [where w = "0x0140000000000000" and beamCols = 1
      and beamRows = 1 and mapflag = 1 and st = ?st and basetime = 0 and ws = ?ws
      and packet = ?packet and l = 40 and FirstFile = 0 and iFile = 0 and tsOffs = 0 and tstart = 0
      and xy = "(0, 0)" and cells = "malloc_photons 2500" and evs = "[]"]
  have sw: "bswap_64 0xFF = 0xFF00000000000000" "bswap_64 0x4001 = 0x0140000000000000"
    "bswap_64 0 = 0" "bswap_64 0x08000000 = 0x800000000"
    by (simp_all add: bswap_64_def)
  have hd: "hdr_start 0xFF00000000000000 = 0xFF" "hdr_timestamp 0xFF00000000000000 = 0"
    by (simp_all add: hdr_start_def hdr_timestamp_def)
  have bt: "wrap_int32 0 = 0" "FixOverflowTimestamps 0 0 0 = 0" "basetime_of 0 0 = 0"
    by (simp_all add: FixOverflowTimestamps_def nWraps_def wrap_int32_def fudgeFactor_def
        signed_divide_int_def basetime_of_def)
  have xs: "data_xcoord 0x0140000000000000 = 5" "data_xcoord 0 = 0" "data_ycoord 0 = 0"
    "data_xcoord 0x800000000 = 0" "data_ycoord 0x800000000 = 0"
    by (simp_all add: data_xcoord_def data_ycoord_def)
  have sk: "parse_word 0 1 1 1 0x0140000000000000 ?st = Some ?st"
    using facts [THEN conjunct1] by (simp add: xs)
  have l2: "parse_words 0 1 1 1 ?ws ?st = parse_words 0 1 1 1 [0, 0x800000000] ?st"
    using facts [THEN conjunct2, THEN conjunct1] by (simp add: xs)
  have lp: "ParseToMem ?packet 40 0 0 0 1 1 1 0 ?st = parse_words 0 1 1 1 ?ws ?st"
    using facts [THEN conjunct2, THEN conjunct2, THEN conjunct1] by (simp add: sw hd bt)
  obtain st' where e: "parse_words 0 1 1 1 ?ws ?st = Some st'"
    unfolding l2
    by (simp add: parse_word_def Let_def xs append_photon_def malloc_photons_def)
  have fl: "filter (\<lambda>w. (data_xcoord w, data_ycoord w) = (0, 0) \<and> fst (0::nat, 0::nat) < 1
              \<and> snd (0::nat, 0::nat) < 1 \<and> \<not> ((1::int) > 0 \<and> BeamFlag ?st (0, 0) > 0)) ?ws
      = [0, 0x800000000]"
    by (simp add: xs)
  have "\<exists>cells'. ptable st' (0, 0) = Some cells'
            \<and> unat (ptablect st' (0, 0)) = unat (ptablect ?st (0, 0)) + length [0 :: u64, 0x800000000]
            \<and> take (unat (ptablect st' (0, 0))) cells'
                = map Some ([] @ map (photon_of (BeamMap ?st (0, 0)) 0) [0, 0x800000000])"
    using facts [THEN conjunct2, THEN conjunct2, THEN conjunct2, of st'] e
    unfolding fl by (simp add: malloc_photons_def)
  then obtain cells' where
    c: "ptable st' (0, 0) = Some cells'" "unat (ptablect st' (0, 0)) = 2"
      "take 2 cells' = [Some (photon_of 7 0 0), Some (photon_of 7 0 0x800000000)]"
    by (auto simp: numeral_2_eq_2)
  have "data_xcoord (bswap_64 0x4001) \<ge> (1::nat)" using sw xs by simp
  then show ?thesis using lp e c by auto
qed

section \<open>Table sorter: properties\<close>

lemma shift_up_step: "lo < s \<Longrightarrow> shift_up xs s lo = shift_up (xs[s := xs ! (s - 1)]) (s - 1) lo"
  by (subst shift_up.simps) simp

lemma shift_up_stop: "\<not> lo < s \<Longrightarrow> shift_up xs s lo = xs"
  by (subst shift_up.simps) simp

lemma shift_up_length: "length (shift_up xs s lo) = length xs"
proof (induction xs s lo rule: shift_up.induct)
  case (1 xs s lo)
  then show ?case by (cases "lo < s") (simp_all add: shift_up_step [of lo s xs] shift_up_stop)
qed

lemma shift_up_nth:
  "s < length xs \<Longrightarrow> i < length xs
   \<Longrightarrow> shift_up xs s lo ! i = (if lo < i \<and> i \<le> s then xs ! (i - 1) else xs ! i)"
proof (induction xs s lo arbitrary: i rule: shift_up.induct)
  case (1 xs s lo)
  show ?case
  proof (cases "lo < s")
    case True
    have "shift_up (xs[s := xs ! (s - 1)]) (s - 1) lo ! i
        = (if lo < i \<and> i \<le> s - 1 then xs[s := xs ! (s - 1)] ! (i - 1) else xs[s := xs ! (s - 1)] ! i)"
      using "1.IH" [OF True, of i] "1.prems" by simp
    then show ?thesis
      using True "1.prems" by (auto simp: shift_up_step [of lo s xs] nth_list_update)
  next
    case False
    then show ?thesis by (auto simp: shift_up_stop)
  qed
qed

text \<open>Moving the element at \<open>p\<close> down to \<open>q\<close>: the shifting loop and the store after it.\<close>

lemma shift_up_store:
  assumes "q \<le> p" and "p < length xs"
  shows "(shift_up xs p q)[q := xs ! p]
       = take q xs @ xs ! p # take (p - q) (drop q xs) @ drop (Suc p) xs"
proof (rule nth_equalityI)
  show "length ((shift_up xs p q)[q := xs ! p])
      = length (take q xs @ xs ! p # take (p - q) (drop q xs) @ drop (Suc p) xs)"
    using assms by (simp add: shift_up_length)
next
  fix i
  assume "i < length ((shift_up xs p q)[q := xs ! p])"
  then have i: "i < length xs" by (simp add: shift_up_length)
  consider "i < q" | "i = q" | "q < i" "i \<le> p" | "p < i" by linarith
  then show "(shift_up xs p q)[q := xs ! p] ! i
      = (take q xs @ xs ! p # take (p - q) (drop q xs) @ drop (Suc p) xs) ! i"
  proof cases
    case 1
    then show ?thesis using assms i by (simp add: shift_up_length shift_up_nth nth_append)
  next
    case 2
    then show ?thesis using assms i by (simp add: shift_up_length nth_append)
  next
    case 3
    then have "(take q xs @ xs ! p # take (p - q) (drop q xs) @ drop (Suc p) xs) ! i
        = (take (p - q) (drop q xs) @ drop (Suc p) xs) ! (i - q - 1)"
      using assms i by (simp add: nth_append nth_Cons')
    also have "\<dots> = xs ! (q + (i - q - 1))"
      using 3 assms i by (simp add: nth_append)
    also have "\<dots> = xs ! (i - 1)" using 3 by simp
    finally show ?thesis using 3 assms i by (simp add: shift_up_length shift_up_nth)
  next
    case 4
    then have "(take q xs @ xs ! p # take (p - q) (drop q xs) @ drop (Suc p) xs) ! i
        = (take (p - q) (drop q xs) @ drop (Suc p) xs) ! (i - q - 1)"
      using assms i by (simp add: nth_append nth_Cons')
    also have "\<dots> = drop (Suc p) xs ! (i - q - 1 - (p - q))"
      using 4 assms i by (simp add: nth_append)
    also have "\<dots> = xs ! i" using 4 assms i by simp
    finally show ?thesis using 4 assms i by (simp add: shift_up_length shift_up_nth)
  qed
qed

lemma take_nth_drop_id: "p < length xs \<Longrightarrow> take p xs @ xs ! p # drop (Suc p) xs = xs"
  by (simp add: id_take_nth_drop [symmetric])

text \<open>
  The search loop started at \<open>cur\<close>, when everything between \<open>cur\<close> and \<open>p\<close> is later than
  the element at \<open>p\<close>: the element lands at some \<open>q\<close>, after an element that is not later
  and before the ones that are.
\<close>

lemma insert_photon_lands:
  assumes "cur < p" and "p < length xs"
    and "\<forall>i. cur < i \<and> i < p \<longrightarrow> timestamp (xs ! p) < timestamp (xs ! i)"
  shows "\<exists>q \<le> p. insert_photon xs p cur
          = take q xs @ xs ! p # take (p - q) (drop q xs) @ drop (Suc p) xs
      \<and> (\<forall>i. q \<le> i \<and> i < p \<longrightarrow> timestamp (xs ! p) < timestamp (xs ! i))
      \<and> (0 < q \<longrightarrow> timestamp (xs ! (q - 1)) \<le> timestamp (xs ! p))"
  using assms
proof (induction cur)
  case 0
  show ?case
  proof (cases "timestamp (xs ! p) \<ge> timestamp (xs ! 0)")
    case True
    show ?thesis
    proof (cases "0 = p - 1")
      case True
      then have p1: "p = 1" using "0.prems" by simp
      have "insert_photon xs p 0 = xs"
        using \<open>timestamp (xs ! p) \<ge> timestamp (xs ! 0)\<close> True by (subst insert_photon.simps) simp
      then have "insert_photon xs p 0 = take p xs @ xs ! p # take (p - p) (drop p xs) @ drop (Suc p) xs"
        using "0.prems" by (simp add: take_nth_drop_id)
      then show ?thesis
        using p1 \<open>timestamp (xs ! p) \<ge> timestamp (xs ! 0)\<close> by (intro exI [of _ p]) simp
    next
      case False
      have "insert_photon xs p 0 = (shift_up xs p 1)[1 := xs ! p]"
        using \<open>timestamp (xs ! p) \<ge> timestamp (xs ! 0)\<close> False by (subst insert_photon.simps) simp
      then have "insert_photon xs p 0 = take 1 xs @ xs ! p # take (p - 1) (drop 1 xs) @ drop (Suc p) xs"
        using "0.prems" False by (simp only: shift_up_store) 
      then show ?thesis
        using "0.prems" \<open>timestamp (xs ! p) \<ge> timestamp (xs ! 0)\<close> by (intro exI [of _ 1]) auto
    qed
  next
    case False
    have "insert_photon xs p 0 = (shift_up xs p 0)[0 := xs ! p]"
      using False by (subst insert_photon.simps) simp
    then have "insert_photon xs p 0 = take 0 xs @ xs ! p # take (p - 0) (drop 0 xs) @ drop (Suc p) xs"
      using "0.prems" by (simp only: shift_up_store)
    moreover have "\<forall>i. 0 \<le> i \<and> i < p \<longrightarrow> timestamp (xs ! p) < timestamp (xs ! i)"
    proof (intro allI impI)
      fix i assume "0 \<le> i \<and> i < p"
      then show "timestamp (xs ! p) < timestamp (xs ! i)"
        using "0.prems"(3) False by (cases "i = 0") auto
    qed
    ultimately show ?thesis by (intro exI [of _ 0]) simp
  qed
next
  case (Suc c)
  show ?case
  proof (cases "timestamp (xs ! p) \<ge> timestamp (xs ! Suc c)")
    case True
    show ?thesis
    proof (cases "Suc c = p - 1")
      case True
      then have pc: "p = Suc (Suc c)" using Suc.prems by simp
      have "insert_photon xs p (Suc c) = xs"
        using \<open>timestamp (xs ! p) \<ge> timestamp (xs ! Suc c)\<close> True by (subst insert_photon.simps) simp
      then have "insert_photon xs p (Suc c)
          = take p xs @ xs ! p # take (p - p) (drop p xs) @ drop (Suc p) xs"
        using Suc.prems by (simp add: take_nth_drop_id)
      then show ?thesis
        using pc \<open>timestamp (xs ! p) \<ge> timestamp (xs ! Suc c)\<close> by (intro exI [of _ p]) auto
    next
      case False
      have le: "Suc c + 1 \<le> p" using Suc.prems by simp
      have "insert_photon xs p (Suc c) = (shift_up xs p (Suc c + 1))[Suc c + 1 := xs ! p]"
        using \<open>timestamp (xs ! p) \<ge> timestamp (xs ! Suc c)\<close> False by (subst insert_photon.simps) simp
      then have "insert_photon xs p (Suc c)
          = take (Suc c + 1) xs @ xs ! p # take (p - (Suc c + 1)) (drop (Suc c + 1) xs) @ drop (Suc p) xs"
        using Suc.prems le by (simp only: shift_up_store)
      then show ?thesis
        using Suc.prems le \<open>timestamp (xs ! p) \<ge> timestamp (xs ! Suc c)\<close>
        by (intro exI [of _ "Suc c + 1"]) auto
    qed
  next
    case False
    have rec: "insert_photon xs p (Suc c) = insert_photon xs p c"
      using False by (subst insert_photon.simps) simp
    have "\<forall>i. c < i \<and> i < p \<longrightarrow> timestamp (xs ! p) < timestamp (xs ! i)"
    proof (intro allI impI)
      fix i assume "c < i \<and> i < p"
      then show "timestamp (xs ! p) < timestamp (xs ! i)"
        using Suc.prems(3) False by (cases "i = Suc c") auto
    qed
    then show ?thesis using Suc.IH Suc.prems rec by simp
  qed
qed


lemma insert_photon_from_below:
  assumes "0 < p" and "p < length xs"
  shows "\<exists>q \<le> p. insert_photon xs p (p - 1)
          = take q xs @ xs ! p # take (p - q) (drop q xs) @ drop (Suc p) xs
      \<and> (\<forall>i. q \<le> i \<and> i < p \<longrightarrow> timestamp (xs ! p) < timestamp (xs ! i))
      \<and> (0 < q \<longrightarrow> timestamp (xs ! (q - 1)) \<le> timestamp (xs ! p))"
proof (rule insert_photon_lands)
  show "p - 1 < p" using assms by simp
  show "p < length xs" by (rule assms)
  show "\<forall>i. p - 1 < i \<and> i < p \<longrightarrow> timestamp (xs ! p) < timestamp (xs ! i)" by auto
qed

lemma insert_photon_length:
  assumes "0 < p" and "p < length xs"
  shows "length (insert_photon xs p (p - 1)) = length xs"
proof -
  from insert_photon_from_below [OF assms(1,2)] obtain q where
    "q \<le> p" "insert_photon xs p (p - 1)
          = take q xs @ xs ! p # take (p - q) (drop q xs) @ drop (Suc p) xs"
    by blast
  then show ?thesis using assms by simp
qed

lemma insert_photon_mset:
  assumes "0 < p" and "p < length xs"
  shows "mset (insert_photon xs p (p - 1)) = mset xs"
proof -
  from insert_photon_from_below [OF assms(1,2)] obtain q where
    q: "q \<le> p" and r: "insert_photon xs p (p - 1)
          = take q xs @ xs ! p # take (p - q) (drop q xs) @ drop (Suc p) xs"
    by blast
  have "xs = take q xs @ drop q xs" by simp
  also have "drop q xs = take (p - q) (drop q xs) @ drop (p - q) (drop q xs)"
    by (simp only: append_take_drop_id)
  also have "drop (p - q) (drop q xs) = drop p xs" using q by simp
  also have "drop p xs = xs ! p # drop (Suc p) xs" using assms by (simp add: Cons_nth_drop_Suc)
  finally have "mset xs = mset (take q xs @ take (p - q) (drop q xs) @ xs ! p # drop (Suc p) xs)"
    by simp
  then show ?thesis unfolding r by simp
qed

lemma insert_photon_rest:
  assumes "0 < p" and "p < length xs"
  shows "drop (Suc p) (insert_photon xs p (p - 1)) = drop (Suc p) xs"
proof -
  from insert_photon_from_below [OF assms(1,2)] obtain q where
    q: "q \<le> p" and r: "insert_photon xs p (p - 1)
          = take q xs @ xs ! p # take (p - q) (drop q xs) @ drop (Suc p) xs"
    by blast
  show ?thesis unfolding r using q assms by (simp add: Suc_diff_le)
qed

lemma insert_photon_sorted:
  assumes "0 < p" and "p < length xs" and "sorted (map timestamp (take p xs))"
  shows "sorted (map timestamp (take (Suc p) (insert_photon xs p (p - 1))))"
proof -
  from insert_photon_from_below [OF assms(1,2)] obtain q where
    q: "q \<le> p" and r: "insert_photon xs p (p - 1)
          = take q xs @ xs ! p # take (p - q) (drop q xs) @ drop (Suc p) xs"
    and after: "\<forall>i. q \<le> i \<and> i < p \<longrightarrow> timestamp (xs ! p) < timestamp (xs ! i)"
    and before: "0 < q \<longrightarrow> timestamp (xs ! (q - 1)) \<le> timestamp (xs ! p)"
    by blast
  have mono: "\<And>i j. i \<le> j \<Longrightarrow> j < p \<Longrightarrow> timestamp (xs ! i) \<le> timestamp (xs ! j)"
  proof -
    fix i j assume "i \<le> j" "j < p"
    then have "map timestamp (take p xs) ! i \<le> map timestamp (take p xs) ! j"
      using assms by (intro sorted_nth_mono) simp_all
    then show "timestamp (xs ! i) \<le> timestamp (xs ! j)"
      using \<open>i \<le> j\<close> \<open>j < p\<close> assms by simp
  qed
  have tk: "take (Suc p) (insert_photon xs p (p - 1)) = take q xs @ xs ! p # take (p - q) (drop q xs)"
    unfolding r using q assms by (simp add: Suc_diff_le)
  have low: "\<forall>a \<in> set (take q xs). timestamp a \<le> timestamp (xs ! p)"
  proof
    fix a assume "a \<in> set (take q xs)"
    then obtain i where i: "i < q" "a = xs ! i"
      using q assms by (auto simp: in_set_conv_nth)
    then have "timestamp (xs ! i) \<le> timestamp (xs ! (q - 1))" using q by (intro mono) simp_all
    then show "timestamp a \<le> timestamp (xs ! p)" using before i by auto
  qed
  have high: "\<forall>b \<in> set (take (p - q) (drop q xs)). timestamp (xs ! p) \<le> timestamp b"
  proof
    fix b assume "b \<in> set (take (p - q) (drop q xs))"
    then obtain j where j: "j < p - q" "b = xs ! (q + j)"
      using q assms by (auto simp: in_set_conv_nth)
    then show "timestamp (xs ! p) \<le> timestamp b" using after by (simp add: less_imp_le)
  qed
  have s1: "sorted (map timestamp (take q xs))"
  proof -
    have "take q xs = take q (take p xs)" using q by (simp add: min_def)
    then have "map timestamp (take q xs) = take q (map timestamp (take p xs))"
      by (simp only: take_map)
    then show ?thesis using assms(3) by (simp only: sorted_wrt_take)
  qed
  have s2: "sorted (map timestamp (take (p - q) (drop q xs)))"
  proof -
    have "take (p - q) (drop q xs) = drop q (take p xs)" by (simp add: drop_take)
    then have "map timestamp (take (p - q) (drop q xs)) = drop q (map timestamp (take p xs))"
      by (simp only: drop_map)
    then show ?thesis using assms(3) by (simp only: sorted_wrt_drop)
  qed
  show ?thesis
    unfolding tk using s1 s2 low high
    by (fastforce simp: sorted_append)
qed


lemma sort_table_step: "p < n \<Longrightarrow> sort_table xs p n = sort_table (insert_photon xs p (p - 1)) (p + 1) n"
  by (subst sort_table.simps) simp

lemma sort_table_stop: "\<not> p < n \<Longrightarrow> sort_table xs p n = xs"
  by (subst sort_table.simps) simp

text \<open>The outer loop, entered with the first \<open>p\<close> elements in order.\<close>

lemma sort_table_sorts:
  "0 < p \<Longrightarrow> p \<le> n \<Longrightarrow> n \<le> length xs \<Longrightarrow> sorted (map timestamp (take p xs))
   \<Longrightarrow> length (sort_table xs p n) = length xs
      \<and> mset (sort_table xs p n) = mset xs
      \<and> sorted (map timestamp (take n (sort_table xs p n)))
      \<and> drop n (sort_table xs p n) = drop n xs"
proof (induction xs p n rule: sort_table.induct)
  case (1 xs p n)
  show ?case
  proof (cases "p < n")
    case True
    let ?ys = "insert_photon xs p (p - 1)"
    have pl: "p < length xs" using True "1.prems" by simp
    have len: "length ?ys = length xs" using "1.prems"(1) pl by (rule insert_photon_length)
    have ms: "mset ?ys = mset xs" using "1.prems"(1) pl by (rule insert_photon_mset)
    have so: "sorted (map timestamp (take (p + 1) ?ys))"
      using insert_photon_sorted [OF "1.prems"(1) pl "1.prems"(4)] by simp
    have re: "drop (Suc p) ?ys = drop (Suc p) xs" using "1.prems"(1) pl by (rule insert_photon_rest)
    have dn: "drop n ?ys = drop n xs"
    proof -
      have "drop n ?ys = drop (n - Suc p) (drop (Suc p) ?ys)" using True by simp
      also have "\<dots> = drop (n - Suc p) (drop (Suc p) xs)" by (simp only: re)
      also have "\<dots> = drop n xs" using True by simp
      finally show ?thesis .
    qed
    have ih: "length (sort_table ?ys (p + 1) n) = length ?ys
      \<and> mset (sort_table ?ys (p + 1) n) = mset ?ys
      \<and> sorted (map timestamp (take n (sort_table ?ys (p + 1) n)))
      \<and> drop n (sort_table ?ys (p + 1) n) = drop n ?ys"
      using "1.IH" [OF True] True "1.prems" len so by simp
    show ?thesis
      unfolding sort_table_step [OF True] using ih len ms dn by simp
  next
    case False
    then have "p = n" using "1.prems" by simp
    then show ?thesis using False "1.prems" by (simp add: sort_table_stop)
  qed
qed

lemma insert_photon_in_place:
  assumes "0 < p" and "timestamp (xs ! (p - 1)) \<le> timestamp (xs ! p)"
  shows "insert_photon xs p (p - 1) = xs"
  using assms by (subst insert_photon.simps) simp

lemma sort_table_sorted_id:
  "0 < p \<Longrightarrow> n \<le> length xs \<Longrightarrow> sorted (map timestamp xs) \<Longrightarrow> sort_table xs p n = xs"
proof (induction xs p n rule: sort_table.induct)
  case (1 xs p n)
  show ?case
  proof (cases "p < n")
    case True
    have "map timestamp xs ! (p - 1) \<le> map timestamp xs ! p"
      using True "1.prems" by (intro sorted_nth_mono) simp_all
    then have "timestamp (xs ! (p - 1)) \<le> timestamp (xs ! p)"
      using True "1.prems" by simp
    then have same: "insert_photon xs p (p - 1) = xs"
      using "1.prems"(1) by (intro insert_photon_in_place)
    show ?thesis
      unfolding sort_table_step [OF True] using "1.IH" [OF True] "1.prems" same by simp
  next
    case False
    then show ?thesis by (simp add: sort_table_stop)
  qed
qed

lemma those_map_Some: "those (map Some xs) = Some xs"
  by (induction xs) simp_all

text \<open>
  One pixel whose block holds \<open>evs\<close> in its first \<open>ptablect\<close> cells: only that block
  changes, and its first cells hold the same events in time order.
\<close>

lemma sort_pixel_sorts:
  assumes "ptable st xy = Some cells" and "unat (ptablect st xy) \<le> length cells"
    and "take (unat (ptablect st xy)) cells = map Some evs"
  shows "\<exists>cells' evs'. sort_pixel st xy = Some (st\<lparr>ptable := (ptable st)(xy := Some cells')\<rparr>)
      \<and> length cells' = length cells
      \<and> take (unat (ptablect st xy)) cells' = map Some evs'
      \<and> drop (unat (ptablect st xy)) cells' = drop (unat (ptablect st xy)) cells
      \<and> sorted (map timestamp evs') \<and> mset evs' = mset evs
      \<and> (sorted (map timestamp evs) \<longrightarrow> cells' = cells)"
proof -
  let ?n = "unat (ptablect st xy)"
  have le: "length evs = ?n"
  proof -
    have "length (take ?n cells) = length (map Some evs)" by (simp only: assms(3))
    then show ?thesis using assms(2) by simp
  qed
  have same: "st\<lparr>ptable := (ptable st)(xy := Some cells)\<rparr> = st"
    using assms(1) by (simp add: fun_upd_idem)
  have whole: "map Some evs @ drop ?n cells = cells"
    using assms(3) append_take_drop_id [of ?n cells] by simp
  show ?thesis
  proof (cases "?n \<le> 1")
    case True
    have "sort_pixel st xy = Some (st\<lparr>ptable := (ptable st)(xy := Some cells)\<rparr>)"
      using True same by (simp add: sort_pixel_def)
    moreover have "sorted (map timestamp evs)"
      using True le by (intro sorted01) simp
    ultimately show ?thesis using assms(3) by blast
  next
    case False
    let ?evs' = "sort_table evs 1 ?n"
    let ?cells' = "map Some ?evs' @ drop ?n cells"
    have th: "those (take ?n cells) = Some evs" by (simp only: assms(3) those_map_Some)
    have sp: "sort_pixel st xy = Some (st\<lparr>ptable := (ptable st)(xy := Some ?cells')\<rparr>)"
      using False assms(1,2) th by (simp add: sort_pixel_def Let_def)
    have so: "length ?evs' = length evs \<and> mset ?evs' = mset evs
        \<and> sorted (map timestamp (take ?n ?evs')) \<and> drop ?n ?evs' = drop ?n evs"
    proof (intro sort_table_sorts)
      show "sorted (map timestamp (take 1 evs))" by (intro sorted01) simp
    qed (use False le in simp_all)
    have l': "length ?evs' = ?n" using so le by simp
    have "length ?cells' = length cells" using l' assms(2) by simp
    moreover have "take ?n ?cells' = map Some ?evs'" using l' by simp
    moreover have "drop ?n ?cells' = drop ?n cells" using l' by simp
    moreover have "sorted (map timestamp ?evs')"
    proof -
      have "take ?n ?evs' = ?evs'" using l' by simp
      moreover have "sorted (map timestamp (take ?n ?evs'))" using so by blast
      ultimately show ?thesis by simp
    qed
    moreover have "mset ?evs' = mset evs" using so by simp
    moreover have "sorted (map timestamp evs) \<longrightarrow> ?cells' = cells"
    proof
      assume "sorted (map timestamp evs)"
      then have "?evs' = evs" using le by (intro sort_table_sorted_id) simp_all
      then show "?cells' = cells" using whole by simp
    qed
    ultimately show ?thesis using sp by blast
  qed
qed

lemma sort_pixel_frame:
  assumes "sort_pixel st xy = Some st'"
  shows "BeamMap st' = BeamMap st \<and> BeamFlag st' = BeamFlag st \<and> ptablect st' = ptablect st
      \<and> (\<forall>xy'. xy' \<noteq> xy \<longrightarrow> ptable st' xy' = ptable st xy')"
  using assms by (auto simp: sort_pixel_def Let_def split: if_splits option.splits)

lemma sort_pixels_frame:
  "sort_pixels st ps = Some st'
   \<Longrightarrow> BeamMap st' = BeamMap st \<and> BeamFlag st' = BeamFlag st \<and> ptablect st' = ptablect st
      \<and> (\<forall>xy. xy \<notin> set ps \<longrightarrow> ptable st' xy = ptable st xy)"
proof (induction ps arbitrary: st)
  case Nil
  then show ?case by simp
next
  case (Cons a ps)
  from Cons.prems obtain st1 where
    a: "sort_pixel st a = Some st1" and r: "sort_pixels st1 ps = Some st'"
    by (auto split: option.splits)
  show ?case using sort_pixel_frame [OF a] Cons.IH [OF r] by auto
qed


lemma pixels_product: "pixels beamCols beamRows = List.product [0..<beamCols] [0..<beamRows]"
  by (simp add: pixels_def product_concat_map)

lemma pixels_distinct: "distinct (pixels beamCols beamRows)"
  by (simp add: pixels_product distinct_product)

lemma pixels_set: "(x, y) \<in> set (pixels beamCols beamRows) \<longleftrightarrow> x < beamCols \<and> y < beamRows"
  by (simp add: pixels_product)

lemma sort_pixels_returns:
  "distinct ps
   \<Longrightarrow> \<forall>xy \<in> set ps. unat (ptablect st xy) \<le> 1
         \<or> (\<exists>cells evs. ptable st xy = Some cells \<and> unat (ptablect st xy) \<le> length cells
               \<and> take (unat (ptablect st xy)) cells = map Some evs)
   \<Longrightarrow> \<exists>st'. sort_pixels st ps = Some st'"
proof (induction ps arbitrary: st)
  case Nil
  then show ?case by simp
next
  case (Cons a ps)
  have "\<exists>st1. sort_pixel st a = Some st1"
  proof (cases "unat (ptablect st a) \<le> 1")
    case True
    then show ?thesis by (simp add: sort_pixel_def)
  next
    case False
    then obtain cells evs where "ptable st a = Some cells" "unat (ptablect st a) \<le> length cells"
      "take (unat (ptablect st a)) cells = map Some evs"
      using Cons.prems(2) by auto
    from sort_pixel_sorts [OF this] show ?thesis by blast
  qed
  then obtain st1 where a: "sort_pixel st a = Some st1" by blast
  have fr: "ptablect st1 = ptablect st" "\<forall>xy. xy \<noteq> a \<longrightarrow> ptable st1 xy = ptable st xy"
    using sort_pixel_frame [OF a] by blast+
  have "\<forall>xy \<in> set ps. unat (ptablect st1 xy) \<le> 1
         \<or> (\<exists>cells evs. ptable st1 xy = Some cells \<and> unat (ptablect st1 xy) \<le> length cells
               \<and> take (unat (ptablect st1 xy)) cells = map Some evs)"
  proof
    fix xy assume m: "xy \<in> set ps"
    then have "xy \<noteq> a" using Cons.prems(1) by auto
    then have "ptable st1 xy = ptable st xy" using fr(2) by blast
    then show "unat (ptablect st1 xy) \<le> 1
         \<or> (\<exists>cells evs. ptable st1 xy = Some cells \<and> unat (ptablect st1 xy) \<le> length cells
               \<and> take (unat (ptablect st1 xy)) cells = map Some evs)"
      using Cons.prems(2) m fr(1) by simp
  qed
  moreover have "distinct ps" using Cons.prems(1) by simp
  ultimately obtain st' where "sort_pixels st1 ps = Some st'" using Cons.IH by blast
  then show ?case using a by simp
qed

lemma sort_pixels_sorts:
  "sort_pixels st ps = Some st' \<Longrightarrow> distinct ps \<Longrightarrow> xy \<in> set ps
   \<Longrightarrow> ptable st xy = Some cells \<Longrightarrow> unat (ptablect st xy) \<le> length cells
   \<Longrightarrow> take (unat (ptablect st xy)) cells = map Some evs
   \<Longrightarrow> \<exists>cells' evs'. ptable st' xy = Some cells'
      \<and> length cells' = length cells
      \<and> take (unat (ptablect st xy)) cells' = map Some evs'
      \<and> drop (unat (ptablect st xy)) cells' = drop (unat (ptablect st xy)) cells
      \<and> sorted (map timestamp evs') \<and> mset evs' = mset evs
      \<and> (sorted (map timestamp evs) \<longrightarrow> cells' = cells)"
proof (induction ps arbitrary: st)
  case Nil
  then show ?case by simp
next
  case (Cons a ps)
  from Cons.prems(1) obtain st1 where
    a: "sort_pixel st a = Some st1" and r: "sort_pixels st1 ps = Some st'"
    by (auto split: option.splits)
  show ?case
  proof (cases "a = xy")
    case True
    from sort_pixel_sorts [OF Cons.prems(4,5,6)] obtain cells' evs' where
      s: "sort_pixel st xy = Some (st\<lparr>ptable := (ptable st)(xy := Some cells')\<rparr>)"
      and p: "length cells' = length cells"
        "take (unat (ptablect st xy)) cells' = map Some evs'"
        "drop (unat (ptablect st xy)) cells' = drop (unat (ptablect st xy)) cells"
        "sorted (map timestamp evs')" "mset evs' = mset evs"
        "sorted (map timestamp evs) \<longrightarrow> cells' = cells"
      by blast
    have "st1 = st\<lparr>ptable := (ptable st)(xy := Some cells')\<rparr>" using a s True by simp
    then have "ptable st1 xy = Some cells'" by simp
    moreover have "xy \<notin> set ps" using Cons.prems(2) True by simp
    moreover have "\<forall>xy. xy \<notin> set ps \<longrightarrow> ptable st' xy = ptable st1 xy"
      using sort_pixels_frame [OF r] by blast
    ultimately have "ptable st' xy = Some cells'" by metis
    then show ?thesis using p by blast
  next
    case False
    have fr: "ptablect st1 = ptablect st" "ptable st1 xy = ptable st xy"
      using sort_pixel_frame [OF a] False by (simp_all del: split_paired_All)
    have "\<exists>cells' evs'. ptable st' xy = Some cells'
      \<and> length cells' = length cells
      \<and> take (unat (ptablect st1 xy)) cells' = map Some evs'
      \<and> drop (unat (ptablect st1 xy)) cells' = drop (unat (ptablect st1 xy)) cells
      \<and> sorted (map timestamp evs') \<and> mset evs' = mset evs
      \<and> (sorted (map timestamp evs) \<longrightarrow> cells' = cells)"
      using Cons.prems False fr by (intro Cons.IH [OF r]) simp_all
    then show ?thesis using fr by simp
  qed
qed

text \<open>
  C3.  On tables in which every pixel with two or more events has them in the first
  \<open>ptablect\<close> cells of its block, \<open>SortPhotonTables\<close> returns, and for every pixel of the
  beam map: the count is unchanged, the first \<open>ptablect\<close> cells hold events whose timestamps
  do not decrease, these events are the input events as a multiset, the cells behind them
  are untouched, and a block whose events were in order already is left exactly as it was.
\<close>

theorem SortPhotonTables_sorts_each_pixel:
  assumes "\<forall>x < beamCols. \<forall>y < beamRows. unat (ptablect st (x, y)) \<le> 1
         \<or> (\<exists>cells evs. ptable st (x, y) = Some cells \<and> unat (ptablect st (x, y)) \<le> length cells
               \<and> take (unat (ptablect st (x, y))) cells = map Some evs)"
    and "x < beamCols" and "y < beamRows"
    and "ptable st (x, y) = Some cells" and "unat (ptablect st (x, y)) \<le> length cells"
    and "take (unat (ptablect st (x, y))) cells = map Some evs"
  shows "\<exists>st' cells' evs'. SortPhotonTables st beamCols beamRows = Some st'
      \<and> ptablect st' = ptablect st
      \<and> ptable st' (x, y) = Some cells'
      \<and> length cells' = length cells
      \<and> take (unat (ptablect st (x, y))) cells' = map Some evs'
      \<and> drop (unat (ptablect st (x, y))) cells' = drop (unat (ptablect st (x, y))) cells
      \<and> sorted (map timestamp evs') \<and> mset evs' = mset evs
      \<and> (sorted (map timestamp evs) \<longrightarrow> cells' = cells)"
proof -
  have ok: "\<forall>xy \<in> set (pixels beamCols beamRows). unat (ptablect st xy) \<le> 1
         \<or> (\<exists>cells evs. ptable st xy = Some cells \<and> unat (ptablect st xy) \<le> length cells
               \<and> take (unat (ptablect st xy)) cells = map Some evs)"
  proof
    fix xy assume "xy \<in> set (pixels beamCols beamRows)"
    obtain a b where ab: "xy = (a, b)" by (cases xy)
    have "a < beamCols" "b < beamRows"
      using \<open>xy \<in> set (pixels beamCols beamRows)\<close> ab by (simp_all add: pixels_set)
    with ab show "unat (ptablect st xy) \<le> 1
         \<or> (\<exists>cells evs. ptable st xy = Some cells \<and> unat (ptablect st xy) \<le> length cells
               \<and> take (unat (ptablect st xy)) cells = map Some evs)"
      using assms(1) by simp
  qed
  from sort_pixels_returns [OF pixels_distinct ok] obtain st' where
    r: "sort_pixels st (pixels beamCols beamRows) = Some st'" by blast
  have m: "(x, y) \<in> set (pixels beamCols beamRows)" using assms(2,3) by (simp add: pixels_set)
  from sort_pixels_sorts [OF r pixels_distinct m assms(4,5,6)] obtain cells' evs' where
    "ptable st' (x, y) = Some cells'"
    "length cells' = length cells"
    "take (unat (ptablect st (x, y))) cells' = map Some evs'"
    "drop (unat (ptablect st (x, y))) cells' = drop (unat (ptablect st (x, y))) cells"
    "sorted (map timestamp evs')" "mset evs' = mset evs"
    "sorted (map timestamp evs) \<longrightarrow> cells' = cells"
    by blast
  moreover have "ptablect st' = ptablect st" using sort_pixels_frame [OF r] by simp
  moreover have "SortPhotonTables st beamCols beamRows = Some st'"
    using r by (simp add: SortPhotonTables_def)
  ultimately show ?thesis by blast
qed

theorem SortPhotonTables_sorts_each_pixel_witness:
  "\<exists>st' cells' evs'.
     SortPhotonTables
       \<lparr>BeamMap = \<lambda>_. 7, BeamFlag = \<lambda>_. 0,
        ptable = \<lambda>_. Some [Some \<lparr>resID = 7, timestamp = 5, wvl = Float_wvl 0, wSpec = Float_one, wNoise = Float_one\<rparr>,
                            Some \<lparr>resID = 7, timestamp = 3, wvl = Float_wvl 0, wSpec = Float_one, wNoise = Float_one\<rparr>, None],
        ptablect = \<lambda>_. 2\<rparr> 1 1 = Some st'
     \<and> ptable st' (0, 0) = Some cells' \<and> length cells' = 3
     \<and> take 2 cells' = map Some evs' \<and> sorted (map timestamp evs')
     \<and> mset evs' = mset [\<lparr>resID = 7, timestamp = 5, wvl = Float_wvl 0, wSpec = Float_one, wNoise = Float_one\<rparr>,
                          \<lparr>resID = 7, timestamp = 3, wvl = Float_wvl 0, wSpec = Float_one, wNoise = Float_one\<rparr>]"
proof -
  let ?a = "\<lparr>resID = 7, timestamp = 5, wvl = Float_wvl 0, wSpec = Float_one, wNoise = Float_one\<rparr>"
  let ?b = "\<lparr>resID = 7, timestamp = 3, wvl = Float_wvl 0, wSpec = Float_one, wNoise = Float_one\<rparr>"
  let ?st = "\<lparr>BeamMap = \<lambda>_. 7, BeamFlag = \<lambda>_. 0, ptable = \<lambda>_. Some [Some ?a, Some ?b, None],
              ptablect = \<lambda>_. 2\<rparr>"
  have h4: "ptable ?st (0, 0) = Some [Some ?a, Some ?b, None]" by simp
  have h5: "unat (ptablect ?st (0, 0)) \<le> length [Some ?a, Some ?b, None]" by simp
  have h6: "take (unat (ptablect ?st (0, 0))) [Some ?a, Some ?b, None] = map Some [?a, ?b]" by simp
  have h1: "\<forall>x < 1. \<forall>y < 1. unat (ptablect ?st (x, y)) \<le> 1
         \<or> (\<exists>cells evs. ptable ?st (x, y) = Some cells \<and> unat (ptablect ?st (x, y)) \<le> length cells
               \<and> take (unat (ptablect ?st (x, y))) cells = map Some evs)"
    using h6 by (intro allI impI disjI2 exI [of _ "[Some ?a, Some ?b, None]"] exI [of _ "[?a, ?b]"]) simp
  have h2: "(0::nat) < 1" by simp
  from SortPhotonTables_sorts_each_pixel [OF h1 h2 h2 h4 h5 h6] obtain st' cells' evs' where
    r: "SortPhotonTables ?st 1 1 = Some st'" "ptable st' (0, 0) = Some cells'"
      "length cells' = length [Some ?a, Some ?b, None]"
      "take (unat (ptablect ?st (0, 0))) cells' = map Some evs'"
      "sorted (map timestamp evs')" "mset evs' = mset [?a, ?b]"
    by blast
  have "length cells' = 3" using r(3) by simp
  moreover have "take 2 cells' = map Some evs'" using r(4) by simp
  ultimately show ?thesis using r(1,2,5,6) by blast
qed

section \<open>Concrete runs\<close>

lemma frame_loop_end:
  "\<not> k < length data
   \<Longrightarrow> frame_loop tsOffs FirstFile iFile mapflag beamCols beamRows tstart data k pstart st
       = Some (pstart, st)"
  by (subst frame_loop.simps) simp

lemma frame_loop_data:
  "k < length data \<Longrightarrow> \<not> is_header (data ! k)
   \<Longrightarrow> frame_loop tsOffs FirstFile iFile mapflag beamCols beamRows tstart data k pstart st
       = frame_loop tsOffs FirstFile iFile mapflag beamCols beamRows tstart data (k + 1) pstart st"
  by (subst frame_loop.simps) simp

lemma frame_loop_header:
  "k < length data \<Longrightarrow> is_header (data ! k)
   \<Longrightarrow> frame_loop tsOffs FirstFile iFile mapflag beamCols beamRows tstart data k pstart st
       = (if nat ((int k * 8 - int pstart) mod 2 ^ 64) > 808 * 16
             \<or> pstart div 8 * 8 + nat ((int k * 8 - int pstart) mod 2 ^ 64) > 8 * length data then None
          else (case ParseToMem (take (nat ((int k * 8 - int pstart) mod 2 ^ 64) div 8) (drop (pstart div 8) data))
                       (nat ((int k * 8 - int pstart) mod 2 ^ 64)) tsOffs FirstFile iFile mapflag
                       beamCols beamRows tstart st of
                  None \<Rightarrow> None
                | Some st1 \<Rightarrow> frame_loop tsOffs FirstFile iFile mapflag beamCols beamRows tstart data
                    (k + 1) (k * 8) st1))"
  by (subst frame_loop.simps) (simp add: Let_def)

lemma is_header_FF: "is_header 0xFF"
  by (simp add: is_header_def hdr_start_def bswap_64_def)

lemma not_is_header_0: "\<not> is_header 0"
  by (simp add: is_header_def hdr_start_def bswap_64_def)

lemma header_FF_fields: "hdr_start (bswap_64 0xFF) = 0xFF" "hdr_timestamp (bswap_64 0xFF) = 0"
  by (simp_all add: hdr_start_def hdr_timestamp_def bswap_64_def)

lemma data_0_fields: "data_xcoord 0 = 0" "data_ycoord 0 = 0" "bswap_64 0 = 0"
  by (simp_all add: data_xcoord_def data_ycoord_def bswap_64_def)

lemma first_cell: "0 < n \<Longrightarrow> take (Suc 0) ((malloc_photons n)[0 := v]) = [v]"
  by (cases n) (simp_all add: malloc_photons_def)

lemma run_start_2018:
  "wrap_int32 0 = 0"
  "wrap_int32 1514764800 = 1514764800"
  "wrap_int32 (uint (1514764800 :: u32)) = 1514764800"
  "(word_of_int ((1514764800 - uint (1514764800 :: u32)) mod 2 ^ 32) :: u64) * 2000 = 0"
  "FixOverflowTimestamps 0 1514764800 1514764800 = 0"
  "basetime_of 0 0 = 0"
  by (simp_all add: wrap_int32_def FixOverflowTimestamps_def nWraps_def fudgeFactor_def
      signed_divide_int_def basetime_of_def)

text \<open>
  A packet of one header (timestamp 0) and one data word (all fields 0) in the first file of
  a run that starts at the start of the year, on tables where pixel \<open>(0, 0)\<close> is valid and
  has its first block, empty.
\<close>

lemma ParseToMem_one_event:
  assumes "0 < beamCols" and "0 < beamRows"
    and "BeamFlag st (0, 0) = 0" and "ptable st (0, 0) = Some (malloc_photons 2500)"
    and "ptablect st (0, 0) = 0"
  shows "ParseToMem [0xFF, 0] 16 1514764800 1514764800 0 1 beamCols beamRows 0 st
    = Some (st\<lparr>ptable := (ptable st)((0, 0) :=
                   Some ((malloc_photons 2500)[0 := Some (photon_of (BeamMap st (0, 0)) 0 0)])),
               ptablect := (ptablect st)((0, 0) := 1)\<rparr>)"
  using assms
  by (simp add: ParseToMem_def header_FF_fields run_start_2018 data_0_fields parse_word_def
        append_photon_def malloc_photons_def Let_def)

lemma decode_file_closed_packet:
  assumes "ParseToMem [0xFF, 0] 16 tsOffs FirstFile iFile mapflag beamCols beamRows tstart st = Some st'"
  shows "decode_file tsOffs FirstFile iFile mapflag beamCols beamRows tstart [0xFF, 0, 0xFF] fr st
    = Some (Some (0, 16), st')"
proof -
  let ?loop = "frame_loop tsOffs FirstFile iFile mapflag beamCols beamRows tstart [0xFF, 0, 0xFF]"
  have "?loop (0 + 1) 0 st = ?loop (0 + 1 + 1) 0 st"
    by (rule frame_loop_data) (simp_all add: not_is_header_0)
  also have "\<dots> = ?loop (0 + 1 + 1 + 1) ((0 + 1 + 1) * 8) st'"
    using assms by (subst frame_loop_header) (simp_all add: is_header_FF)
  also have "\<dots> = Some ((0 + 1 + 1) * 8, st')"
    by (rule frame_loop_end) simp
  finally show ?thesis by (simp add: decode_file_def is_header_FF)
qed

lemma decode_file_open_packet:
  "decode_file tsOffs FirstFile iFile mapflag beamCols beamRows tstart [0xFF, 0] fr st
    = Some (Some (0, 0), st)"
proof -
  let ?loop = "frame_loop tsOffs FirstFile iFile mapflag beamCols beamRows tstart [0xFF, 0]"
  have "?loop (0 + 1) 0 st = ?loop (0 + 1 + 1) 0 st"
    by (rule frame_loop_data) (simp_all add: not_is_header_0)
  also have "\<dots> = Some (0, st)"
    by (rule frame_loop_end) simp
  finally show ?thesis by (simp add: decode_file_def is_header_FF)
qed

lemma ParseToMem_flagged_pixel:
  assumes "BeamFlag st (0, 0) \<noteq> 0"
  shows "ParseToMem [0xFF, 0] 16 1514764800 1514764800 0 1 beamCols beamRows 0 st = Some st"
  using assms
  by (simp add: ParseToMem_def header_FF_fields run_start_2018 data_0_fields parse_word_def
        Let_def word_gt_0)

lemma decode_run_from_load:
  assumes "ParseBeamMapFile beamCols beamRows bm_rows bm_tail
        \<lparr>BeamMap = InitializeBeamMap (\<lambda>_. 0) beamMapInitVal beamCols beamRows,
         BeamFlag = InitializeBeamMap (\<lambda>_. 0) 1 beamCols beamRows,
         ptable = (\<lambda>_. None), ptablect = (\<lambda>_. 0)\<rparr>
        (replicate ((beamCols * beamRows) mod 2 ^ 32) (0, 0, 0, 0)) = Some (cnt, st1, disk)"
    and "decode_files (wrap_int32 (uint tsOffs)) FirstFile mapflag beamCols beamRows
           ((word_of_int ((FirstFile - uint tsOffs) mod 2 ^ 32) :: u64) * 2000) files [0..<nFiles] None
           (alloc_ptable st1 beamCols beamRows) = Some (fr, st2)"
  shows "decode_run FirstFile nFiles mapflag beamCols beamRows tsOffs bm_rows bm_tail files
    = Some (disk, st2)"
  using assms by (simp add: decode_run_def Let_def)

lemma sort_pixels_few:
  "\<forall>xy \<in> set ps. unat (ptablect st xy) \<le> 1 \<Longrightarrow> sort_pixels st ps = Some st"
  by (induction ps) (simp_all add: sort_pixel_def)

lemma free_pixels_allocated:
  "\<forall>xy \<in> set ps. \<exists>cells. ptable st xy = Some cells \<Longrightarrow> free_pixels st ps = Some ()"
  by (induction ps) auto

text \<open>
  A run of one file that starts at the start of 2018, from the tables after decoding:
  with at most one event in each pixel the sorter changes nothing, and the run returns
  what the last loop copies once every block of the map can be released.
\<close>

lemma extract_from_decode_run:
  assumes "decode_run 1514764800 1 1 beamCols beamRows tsOffs bm_rows bm_tail files = Some (disk, st2)"
    and "\<forall>xy \<in> set (pixels beamCols beamRows). unat (ptablect st2 xy) \<le> 1"
    and "flatten st2 beamCols beamRows disk [] = Some out"
    and "\<forall>xy \<in> set (pixels beamCols beamRows). \<exists>cells. ptable st2 xy = Some cells"
  shows "extract_photons False 1514764800 0 bm_rows bm_tail beamCols beamRows n_max_photons tsOffs files
    = Some (int (length out), out)"
proof -
  have so: "SortPhotonTables st2 beamCols beamRows = Some st2"
    unfolding SortPhotonTables_def using assms(2) by (rule sort_pixels_few)
  have fr: "free_pixels st2 (pixels beamCols beamRows) = Some ()"
    using assms(4) by (rule free_pixels_allocated)
  have n: "wrap_int32 (int 1514764800) = 1514764800" "((0::nat) + 1) mod 2 ^ 32 = 1"
    by (simp_all add: wrap_int32_def)
  show ?thesis
    unfolding extract_photons_def Let_def n using assms(1,3) so fr by simp
qed

lemma decode_files_closed_packet:
  assumes "0 < beamCols" and "0 < beamRows"
    and "BeamFlag st (0, 0) = 0" and "ptable st (0, 0) = Some (malloc_photons 2500)"
    and "ptablect st (0, 0) = 0"
  shows "decode_files (wrap_int32 (uint (1514764800 :: u32))) 1514764800 1 beamCols beamRows
      ((word_of_int ((1514764800 - uint (1514764800 :: u32)) mod 2 ^ 32) :: u64) * 2000)
      (\<lambda>_. [0xFF, 0, 0xFF]) [0..<1] None st
    = Some (Some (0, 16),
        st\<lparr>ptable := (ptable st)((0, 0) :=
                   Some ((malloc_photons 2500)[0 := Some (photon_of (BeamMap st (0, 0)) 0 0)])),
           ptablect := (ptablect st)((0, 0) := 1)\<rparr>)"
  using decode_file_closed_packet [OF ParseToMem_one_event [OF assms]]
  by (simp add: run_start_2018)

lemma decode_files_closed_packet_flagged:
  assumes "BeamFlag st (0, 0) \<noteq> 0"
  shows "decode_files (wrap_int32 (uint (1514764800 :: u32))) 1514764800 1 beamCols beamRows
      ((word_of_int ((1514764800 - uint (1514764800 :: u32)) mod 2 ^ 32) :: u64) * 2000)
      (\<lambda>_. [0xFF, 0, 0xFF]) [0..<1] None st
    = Some (Some (0, 16), st)"
  using decode_file_closed_packet [OF ParseToMem_flagged_pixel [OF assms]]
  by (simp add: run_start_2018)

lemma decode_files_open_packet:
  "decode_files tsOffs FirstFile mapflag beamCols beamRows tstart (\<lambda>_. [0xFF, 0]) [0..<1] None st
    = Some (Some (0, 0), st)"
  by (simp add: decode_file_open_packet)

lemma copy_one_event:
  assumes "BeamMap st (0, 0) \<noteq> beamMapInitVal"
    and "ptable st (0, 0) = Some ((malloc_photons 2500)[0 := Some ev])"
    and "ptablect st (0, 0) = 1" and "0 < beamCols"
  shows "copy_pixel st beamCols 1 (resid, flag, 0, 0) = Some [ev]"
proof -
  have l: "length ((malloc_photons 2500)[0 := Some ev]) = 2500" by (simp add: malloc_photons_def)
  have t: "take (unat (1 :: u32)) ((malloc_photons 2500)[0 := Some ev]) = [Some ev]"
    by (simp add: first_cell)
  show ?thesis
    unfolding copy_pixel_def using assms l t by simp
qed

lemma copy_no_event:
  assumes "ptablect st (0, 0) = 0" and "0 < beamCols"
  shows "copy_pixel st beamCols 1 (resid, flag, 0, 0) = Some []"
  unfolding copy_pixel_def using assms by simp

text \<open>
  The beam-map files of the runs below, read into the tables of a map of one row.
\<close>

lemma load_one_good_pixel:
  "\<exists>st1. ParseBeamMapFile 1 1 [(7, 0, 0, 0)] []
        \<lparr>BeamMap = InitializeBeamMap (\<lambda>_. 0) beamMapInitVal 1 1,
         BeamFlag = InitializeBeamMap (\<lambda>_. 0) 1 1 1,
         ptable = (\<lambda>_. None), ptablect = (\<lambda>_. 0)\<rparr>
        (replicate ((1 * 1) mod 2 ^ 32) (0, 0, 0, 0))
      = Some (1, st1, [(7, 0, 0, 0)])
    \<and> BeamMap st1 (0, 0) = 7 \<and> BeamFlag st1 (0, 0) = 0
    \<and> ptable st1 = (\<lambda>_. None) \<and> ptablect st1 = (\<lambda>_. 0)"
  by (simp add: ParseBeamMapFile_def store_beam_def)

lemma load_one_flagged_pixel:
  "\<exists>st1. ParseBeamMapFile 1 1 [(7, 2, 0, 0)] []
        \<lparr>BeamMap = InitializeBeamMap (\<lambda>_. 0) beamMapInitVal 1 1,
         BeamFlag = InitializeBeamMap (\<lambda>_. 0) 1 1 1,
         ptable = (\<lambda>_. None), ptablect = (\<lambda>_. 0)\<rparr>
        (replicate ((1 * 1) mod 2 ^ 32) (0, 0, 0, 0))
      = Some (1, st1, [(7, 2, 0, 0)])
    \<and> BeamMap st1 (0, 0) = 7 \<and> BeamFlag st1 (0, 0) = 2
    \<and> ptable st1 = (\<lambda>_. None) \<and> ptablect st1 = (\<lambda>_. 0)"
  by (simp add: ParseBeamMapFile_def store_beam_def)

lemma load_flagged_pixel_partial_row:
  "\<exists>st1. ParseBeamMapFile 1 1 [(7, 2, 0, 0)] [8, 0]
        \<lparr>BeamMap = InitializeBeamMap (\<lambda>_. 0) beamMapInitVal 1 1,
         BeamFlag = InitializeBeamMap (\<lambda>_. 0) 1 1 1,
         ptable = (\<lambda>_. None), ptablect = (\<lambda>_. 0)\<rparr>
        (replicate ((1 * 1) mod 2 ^ 32) (0, 0, 0, 0))
      = Some (1, st1, [(7, 2, 0, 0)])
    \<and> BeamMap st1 (0, 0) = 8 \<and> BeamFlag st1 (0, 0) = 0
    \<and> ptable st1 = (\<lambda>_. None) \<and> ptablect st1 = (\<lambda>_. 0)"
  by (simp add: ParseBeamMapFile_def store_beam_def)

lemma replicate_two: "replicate 2 x = [x, x]"
  by (simp add: numeral_2_eq_2)

lemma load_two_pixels_partial_row:
  "\<exists>st1. ParseBeamMapFile 2 1 [(7, 0, 0, 0)] [8, 1, 1]
        \<lparr>BeamMap = InitializeBeamMap (\<lambda>_. 0) beamMapInitVal 2 1,
         BeamFlag = InitializeBeamMap (\<lambda>_. 0) 1 2 1,
         ptable = (\<lambda>_. None), ptablect = (\<lambda>_. 0)\<rparr>
        (replicate ((2 * 1) mod 2 ^ 32) (0, 0, 0, 0))
      = Some (1, st1, [(7, 0, 0, 0), (0, 0, 0, 0)])
    \<and> BeamMap st1 (0, 0) = 7 \<and> BeamFlag st1 (0, 0) = 0
    \<and> BeamMap st1 (1, 0) = 8 \<and> BeamFlag st1 (1, 0) = 1
    \<and> ptable st1 = (\<lambda>_. None) \<and> ptablect st1 = (\<lambda>_. 0)"
proof -
  have two: "replicate ((2 * 1) mod 2 ^ 32) (0, 0, 0, 0) = [(0, 0, 0, 0), (0, 0, 0, 0 :: int)]"
    by (simp add: replicate_two)
  show ?thesis
    unfolding two by (simp add: ParseBeamMapFile_def store_beam_def)
qed

lemma alloc_ptable_frame:
  "BeamMap (alloc_ptable st beamCols beamRows) = BeamMap st"
  "BeamFlag (alloc_ptable st beamCols beamRows) = BeamFlag st"
  "ptablect (alloc_ptable st beamCols beamRows) = ptablect st"
  by (simp_all add: alloc_ptable_def)

lemma alloc_ptable_mapped:
  "x < beamCols \<Longrightarrow> y < beamRows \<Longrightarrow> BeamMap st (x, y) \<noteq> beamMapInitVal
   \<Longrightarrow> ptable (alloc_ptable st beamCols beamRows) (x, y) = Some (malloc_photons 2500)"
  by (simp add: alloc_ptable_def)

lemma pixels_one: "pixels 1 1 = [(0, 0)]"
  by (simp add: pixels_def)

lemma pixels_two: "pixels 2 1 = [(0, 0), (1, 0)]"
  by (simp add: pixels_def numeral_2_eq_2)

lemma extract_closed_packet:
  "extract_photons False 1514764800 0 [(7, 0, 0, 0)] [] 1 1 n_max_photons 1514764800
     (\<lambda>_. [0xFF, 0, 0xFF]) = Some (1, [photon_of 7 0 0])"
proof -
  from load_one_good_pixel obtain st1 where
    pb: "ParseBeamMapFile 1 1 [(7, 0, 0, 0)] []
        \<lparr>BeamMap = InitializeBeamMap (\<lambda>_. 0) beamMapInitVal 1 1,
         BeamFlag = InitializeBeamMap (\<lambda>_. 0) 1 1 1,
         ptable = (\<lambda>_. None), ptablect = (\<lambda>_. 0)\<rparr>
        (replicate ((1 * 1) mod 2 ^ 32) (0, 0, 0, 0))
      = Some (1, st1, [(7, 0, 0, 0)])"
    and s1: "BeamMap st1 (0, 0) = 7" "BeamFlag st1 (0, 0) = 0" "ptablect st1 = (\<lambda>_. 0)"
    by blast
  let ?sta = "alloc_ptable st1 1 1"
  let ?st2 = "?sta\<lparr>ptable := (ptable ?sta)((0, 0) :=
                   Some ((malloc_photons 2500)[0 := Some (photon_of (BeamMap ?sta (0, 0)) 0 0)])),
               ptablect := (ptablect ?sta)((0, 0) := 1)\<rparr>"
  have a: "BeamFlag ?sta (0, 0) = 0" "ptablect ?sta (0, 0) = 0" "BeamMap ?sta (0, 0) = 7"
    "ptablect ?sta = (\<lambda>_. 0)"
    using s1 by (simp_all add: alloc_ptable_frame)
  have b: "ptable ?sta (0, 0) = Some (malloc_photons 2500)"
    using s1(1) by (intro alloc_ptable_mapped) (simp_all add: beamMapInitVal_def)
  have df: "decode_files (wrap_int32 (uint (1514764800 :: u32))) 1514764800 1 1 1
      ((word_of_int ((1514764800 - uint (1514764800 :: u32)) mod 2 ^ 32) :: u64) * 2000)
      (\<lambda>_. [0xFF, 0, 0xFF]) [0..<1] None ?sta = Some (Some (0, 16), ?st2)"
    using a(1) b a(2) by (intro decode_files_closed_packet) simp_all
  have dr: "decode_run 1514764800 1 1 1 1 1514764800 [(7, 0, 0, 0)] [] (\<lambda>_. [0xFF, 0, 0xFF])
      = Some ([(7, 0, 0, 0)], ?st2)"
    using pb df by (rule decode_run_from_load)
  have few: "\<forall>xy \<in> set (pixels 1 1). unat (ptablect ?st2 xy) \<le> 1" using a(4) by simp
  have cp: "copy_pixel ?st2 1 1 (7, 0, 0, 0) = Some [photon_of 7 0 0]"
    using a(3) by (intro copy_one_event) (simp_all add: beamMapInitVal_def)
  have fl: "flatten ?st2 1 1 [(7, 0, 0, 0)] [] = Some [photon_of 7 0 0]" using cp by simp
  have al: "\<forall>xy \<in> set (pixels 1 1). \<exists>cells. ptable ?st2 xy = Some cells"
    unfolding pixels_one by simp
  show ?thesis using extract_from_decode_run [OF dr few fl al] by simp
qed

lemma extract_open_packet:
  "extract_photons False 1514764800 0 [(7, 0, 0, 0)] [] 1 1 n_max_photons 1514764800
     (\<lambda>_. [0xFF, 0]) = Some (0, [])"
proof -
  from load_one_good_pixel obtain st1 where
    pb: "ParseBeamMapFile 1 1 [(7, 0, 0, 0)] []
        \<lparr>BeamMap = InitializeBeamMap (\<lambda>_. 0) beamMapInitVal 1 1,
         BeamFlag = InitializeBeamMap (\<lambda>_. 0) 1 1 1,
         ptable = (\<lambda>_. None), ptablect = (\<lambda>_. 0)\<rparr>
        (replicate ((1 * 1) mod 2 ^ 32) (0, 0, 0, 0))
      = Some (1, st1, [(7, 0, 0, 0)])"
    and s1: "BeamMap st1 (0, 0) = 7" "ptablect st1 = (\<lambda>_. 0)"
    by blast
  let ?sta = "alloc_ptable st1 1 1"
  have a: "ptablect ?sta = (\<lambda>_. 0)" using s1 by (simp add: alloc_ptable_frame)
  have b: "ptable ?sta (0, 0) = Some (malloc_photons 2500)"
    using s1(1) by (intro alloc_ptable_mapped) (simp_all add: beamMapInitVal_def)
  have df: "decode_files (wrap_int32 (uint (1514764800 :: u32))) 1514764800 1 1 1
      ((word_of_int ((1514764800 - uint (1514764800 :: u32)) mod 2 ^ 32) :: u64) * 2000)
      (\<lambda>_. [0xFF, 0]) [0..<1] None ?sta = Some (Some (0, 0), ?sta)"
    by (rule decode_files_open_packet)
  have dr: "decode_run 1514764800 1 1 1 1 1514764800 [(7, 0, 0, 0)] [] (\<lambda>_. [0xFF, 0])
      = Some ([(7, 0, 0, 0)], ?sta)"
    using pb df by (rule decode_run_from_load)
  have few: "\<forall>xy \<in> set (pixels 1 1). unat (ptablect ?sta xy) \<le> 1" using a by simp
  have cp: "copy_pixel ?sta 1 1 (7, 0, 0, 0) = Some []"
    using a by (intro copy_no_event) simp_all
  have fl: "flatten ?sta 1 1 [(7, 0, 0, 0)] [] = Some []" using cp by simp
  have al: "\<forall>xy \<in> set (pixels 1 1). \<exists>cells. ptable ?sta xy = Some cells"
    unfolding pixels_one using b by simp
  show ?thesis using extract_from_decode_run [OF dr few fl al] by simp
qed

lemma extract_flagged_pixel:
  "extract_photons False 1514764800 0 [(7, 2, 0, 0)] [] 1 1 n_max_photons 1514764800
     (\<lambda>_. [0xFF, 0, 0xFF]) = Some (0, [])"
proof -
  from load_one_flagged_pixel obtain st1 where
    pb: "ParseBeamMapFile 1 1 [(7, 2, 0, 0)] []
        \<lparr>BeamMap = InitializeBeamMap (\<lambda>_. 0) beamMapInitVal 1 1,
         BeamFlag = InitializeBeamMap (\<lambda>_. 0) 1 1 1,
         ptable = (\<lambda>_. None), ptablect = (\<lambda>_. 0)\<rparr>
        (replicate ((1 * 1) mod 2 ^ 32) (0, 0, 0, 0))
      = Some (1, st1, [(7, 2, 0, 0)])"
    and s1: "BeamMap st1 (0, 0) = 7" "BeamFlag st1 (0, 0) = 2" "ptablect st1 = (\<lambda>_. 0)"
    by blast
  let ?sta = "alloc_ptable st1 1 1"
  have a: "ptablect ?sta = (\<lambda>_. 0)" "BeamFlag ?sta (0, 0) \<noteq> 0"
    using s1 by (simp_all add: alloc_ptable_frame)
  have b: "ptable ?sta (0, 0) = Some (malloc_photons 2500)"
    using s1(1) by (intro alloc_ptable_mapped) (simp_all add: beamMapInitVal_def)
  have df: "decode_files (wrap_int32 (uint (1514764800 :: u32))) 1514764800 1 1 1
      ((word_of_int ((1514764800 - uint (1514764800 :: u32)) mod 2 ^ 32) :: u64) * 2000)
      (\<lambda>_. [0xFF, 0, 0xFF]) [0..<1] None ?sta = Some (Some (0, 16), ?sta)"
    using a(2) by (rule decode_files_closed_packet_flagged)
  have dr: "decode_run 1514764800 1 1 1 1 1514764800 [(7, 2, 0, 0)] [] (\<lambda>_. [0xFF, 0, 0xFF])
      = Some ([(7, 2, 0, 0)], ?sta)"
    using pb df by (rule decode_run_from_load)
  have few: "\<forall>xy \<in> set (pixels 1 1). unat (ptablect ?sta xy) \<le> 1" using a(1) by simp
  have cp: "copy_pixel ?sta 1 1 (7, 2, 0, 0) = Some []"
    using a(1) by (intro copy_no_event) simp_all
  have fl: "flatten ?sta 1 1 [(7, 2, 0, 0)] [] = Some []" using cp by simp
  have al: "\<forall>xy \<in> set (pixels 1 1). \<exists>cells. ptable ?sta xy = Some cells"
    unfolding pixels_one using b by simp
  show ?thesis using extract_from_decode_run [OF dr few fl al] by simp
qed

lemma extract_flagged_pixel_partial_row:
  "extract_photons False 1514764800 0 [(7, 2, 0, 0)] [8, 0] 1 1 n_max_photons 1514764800
     (\<lambda>_. [0xFF, 0, 0xFF]) = Some (1, [photon_of 8 0 0])"
proof -
  from load_flagged_pixel_partial_row obtain st1 where
    pb: "ParseBeamMapFile 1 1 [(7, 2, 0, 0)] [8, 0]
        \<lparr>BeamMap = InitializeBeamMap (\<lambda>_. 0) beamMapInitVal 1 1,
         BeamFlag = InitializeBeamMap (\<lambda>_. 0) 1 1 1,
         ptable = (\<lambda>_. None), ptablect = (\<lambda>_. 0)\<rparr>
        (replicate ((1 * 1) mod 2 ^ 32) (0, 0, 0, 0))
      = Some (1, st1, [(7, 2, 0, 0)])"
    and s1: "BeamMap st1 (0, 0) = 8" "BeamFlag st1 (0, 0) = 0" "ptablect st1 = (\<lambda>_. 0)"
    by blast
  let ?sta = "alloc_ptable st1 1 1"
  let ?st2 = "?sta\<lparr>ptable := (ptable ?sta)((0, 0) :=
                   Some ((malloc_photons 2500)[0 := Some (photon_of (BeamMap ?sta (0, 0)) 0 0)])),
               ptablect := (ptablect ?sta)((0, 0) := 1)\<rparr>"
  have a: "BeamFlag ?sta (0, 0) = 0" "ptablect ?sta (0, 0) = 0" "BeamMap ?sta (0, 0) = 8"
    "ptablect ?sta = (\<lambda>_. 0)"
    using s1 by (simp_all add: alloc_ptable_frame)
  have b: "ptable ?sta (0, 0) = Some (malloc_photons 2500)"
    using s1(1) by (intro alloc_ptable_mapped) (simp_all add: beamMapInitVal_def)
  have df: "decode_files (wrap_int32 (uint (1514764800 :: u32))) 1514764800 1 1 1
      ((word_of_int ((1514764800 - uint (1514764800 :: u32)) mod 2 ^ 32) :: u64) * 2000)
      (\<lambda>_. [0xFF, 0, 0xFF]) [0..<1] None ?sta = Some (Some (0, 16), ?st2)"
    using a(1) b a(2) by (intro decode_files_closed_packet) simp_all
  have dr: "decode_run 1514764800 1 1 1 1 1514764800 [(7, 2, 0, 0)] [8, 0] (\<lambda>_. [0xFF, 0, 0xFF])
      = Some ([(7, 2, 0, 0)], ?st2)"
    using pb df by (rule decode_run_from_load)
  have few: "\<forall>xy \<in> set (pixels 1 1). unat (ptablect ?st2 xy) \<le> 1" using a(4) by simp
  have cp: "copy_pixel ?st2 1 1 (7, 2, 0, 0) = Some [photon_of 8 0 0]"
    using a(3) by (intro copy_one_event) (simp_all add: beamMapInitVal_def)
  have fl: "flatten ?st2 1 1 [(7, 2, 0, 0)] [] = Some [photon_of 8 0 0]" using cp by simp
  have al: "\<forall>xy \<in> set (pixels 1 1). \<exists>cells. ptable ?st2 xy = Some cells"
    unfolding pixels_one by simp
  show ?thesis using extract_from_decode_run [OF dr few fl al] by simp
qed

lemma extract_short_beam_map:
  "extract_photons False 1514764800 0 [(7, 0, 0, 0)] [8, 1, 1] 2 1 n_max_photons 1514764800
     (\<lambda>_. [0xFF, 0, 0xFF]) = Some (2, [photon_of 7 0 0, photon_of 7 0 0])
   \<and> (\<exists>st2. decode_run 1514764800 1 1 2 1 1514764800 [(7, 0, 0, 0)] [8, 1, 1] (\<lambda>_. [0xFF, 0, 0xFF])
        = Some ([(7, 0, 0, 0), (0, 0, 0, 0)], st2)
      \<and> ptablect st2 = (\<lambda>_. 0)((0, 0) := 1))"
proof -
  from load_two_pixels_partial_row obtain st1 where
    pb: "ParseBeamMapFile 2 1 [(7, 0, 0, 0)] [8, 1, 1]
        \<lparr>BeamMap = InitializeBeamMap (\<lambda>_. 0) beamMapInitVal 2 1,
         BeamFlag = InitializeBeamMap (\<lambda>_. 0) 1 2 1,
         ptable = (\<lambda>_. None), ptablect = (\<lambda>_. 0)\<rparr>
        (replicate ((2 * 1) mod 2 ^ 32) (0, 0, 0, 0))
      = Some (1, st1, [(7, 0, 0, 0), (0, 0, 0, 0)])"
    and s1: "BeamMap st1 (0, 0) = 7" "BeamFlag st1 (0, 0) = 0" "BeamMap st1 (1, 0) = 8"
      "ptablect st1 = (\<lambda>_. 0)"
    by blast
  let ?sta = "alloc_ptable st1 2 1"
  let ?st2 = "?sta\<lparr>ptable := (ptable ?sta)((0, 0) :=
                   Some ((malloc_photons 2500)[0 := Some (photon_of (BeamMap ?sta (0, 0)) 0 0)])),
               ptablect := (ptablect ?sta)((0, 0) := 1)\<rparr>"
  have a: "BeamFlag ?sta (0, 0) = 0" "ptablect ?sta (0, 0) = 0" "BeamMap ?sta (0, 0) = 7"
    "ptablect ?sta = (\<lambda>_. 0)"
    using s1 by (simp_all add: alloc_ptable_frame)
  have b: "ptable ?sta (0, 0) = Some (malloc_photons 2500)"
    "ptable ?sta (1, 0) = Some (malloc_photons 2500)"
    using s1(1,3) by (intro alloc_ptable_mapped; simp add: beamMapInitVal_def)+
  have df: "decode_files (wrap_int32 (uint (1514764800 :: u32))) 1514764800 1 2 1
      ((word_of_int ((1514764800 - uint (1514764800 :: u32)) mod 2 ^ 32) :: u64) * 2000)
      (\<lambda>_. [0xFF, 0, 0xFF]) [0..<1] None ?sta = Some (Some (0, 16), ?st2)"
    using a(1) b(1) a(2) by (intro decode_files_closed_packet) simp_all
  have dr: "decode_run 1514764800 1 1 2 1 1514764800 [(7, 0, 0, 0)] [8, 1, 1] (\<lambda>_. [0xFF, 0, 0xFF])
      = Some ([(7, 0, 0, 0), (0, 0, 0, 0)], ?st2)"
    using pb df by (rule decode_run_from_load)
  have ct: "ptablect ?st2 = (\<lambda>_. 0)((0, 0) := 1)" using a(4) by simp
  have few: "\<forall>xy \<in> set (pixels 2 1). unat (ptablect ?st2 xy) \<le> 1" using a(4) by simp
  have cp: "copy_pixel ?st2 2 1 (7, 0, 0, 0) = Some [photon_of 7 0 0]"
    "copy_pixel ?st2 2 1 (0, 0, 0, 0) = Some [photon_of 7 0 0]"
    using a(3) by (intro copy_one_event; simp add: beamMapInitVal_def)+
  have fl: "flatten ?st2 2 1 [(7, 0, 0, 0), (0, 0, 0, 0)] [] = Some [photon_of 7 0 0, photon_of 7 0 0]"
    using cp by simp
  have al: "\<forall>xy \<in> set (pixels 2 1). \<exists>cells. ptable ?st2 xy = Some cells"
    unfolding pixels_two using b(2) by simp
  have "extract_photons False 1514764800 0 [(7, 0, 0, 0)] [8, 1, 1] 2 1 n_max_photons 1514764800
     (\<lambda>_. [0xFF, 0, 0xFF]) = Some (2, [photon_of 7 0 0, photon_of 7 0 0])"
    using extract_from_decode_run [OF dr few fl al] by simp
  then show ?thesis using dr ct by blast
qed

section \<open>The run extractor\<close>

text \<open>
  C1: the code at a file that holds one packet and nothing after it.  The words from the
  last header to the end of the file are never passed to \<open>ParseToMem\<close>: the run returns no
  event, and returns the packet's event once a further header word follows it.
\<close>

theorem extract_photons_drops_final_packet:
  "extract_photons False 1514764800 0 [(7, 0, 0, 0)] [] 1 1 10 1514764800 (\<lambda>_. [0xFF, 0])
     = Some (0, [])
   \<and> extract_photons False 1514764800 0 [(7, 0, 0, 0)] [] 1 1 10 1514764800 (\<lambda>_. [0xFF, 0, 0xFF])
     = Some (1, [photon_of 7 0 0])"
  by (simp only: extract_open_packet extract_closed_packet)

text \<open>
  C5: a missing directory and a file count of 1801 give \<open>-1\<close> and nothing written, but the
  capacity of the output array is never consulted: with \<open>n_max_photons = 0\<close> the run
  returns 1 and has written one event.
\<close>

theorem extract_photons_ignores_capacity:
  "extract_photons True start_timestamp integration_time bm_rows bm_tail bmap_ncol bmap_nrow
     n_max_photons tsOffs files = Some (- 1, [])
   \<and> extract_photons False start_timestamp 1800 bm_rows bm_tail bmap_ncol bmap_nrow
     n_max_photons tsOffs files = Some (- 1, [])
   \<and> extract_photons False 1514764800 0 [(7, 0, 0, 0)] [] 1 1 0 1514764800 (\<lambda>_. [0xFF, 0, 0xFF])
     = Some (1, [photon_of 7 0 0])"
proof (intro conjI)
  show "extract_photons True start_timestamp integration_time bm_rows bm_tail bmap_ncol bmap_nrow
     n_max_photons tsOffs files = Some (- 1, [])"
    by (simp add: extract_photons_def)
  show "extract_photons False start_timestamp 1800 bm_rows bm_tail bmap_ncol bmap_nrow
     n_max_photons tsOffs files = Some (- 1, [])"
    by (simp add: extract_photons_def)
  show "extract_photons False 1514764800 0 [(7, 0, 0, 0)] [] 1 1 0 1514764800 (\<lambda>_. [0xFF, 0, 0xFF])
     = Some (1, [photon_of 7 0 0])"
    by (rule extract_closed_packet)
qed

text \<open>
  C7: the code at a beam map of two columns and one row whose file is the row \<open>7 0 0 0\<close>
  followed by the three values \<open>8 1 1\<close>.  The incomplete last row is not entered in
  \<open>DiskBeamMap\<close>, but the stores after the failed \<open>fscanf\<close> map pixel \<open>(1, 0)\<close>, so every
  pixel of the map gets its block and the clean-up loop frees only allocated blocks: the
  run returns.  The copy loop runs over all \<open>beamCols*beamRows\<close> rows of \<open>DiskBeamMap\<close>, and
  the row the file did not fill is zero, naming pixel \<open>(0, 0)\<close> again: one event is decoded
  (the counts after decoding are 1 at \<open>(0, 0)\<close> and 0 elsewhere), it is copied twice and 2 is
  returned.
\<close>

theorem extract_photons_copies_pixel_twice:
  "extract_photons False 1514764800 0 [(7, 0, 0, 0)] [8, 1, 1] 2 1 10 1514764800
     (\<lambda>_. [0xFF, 0, 0xFF]) = Some (2, [photon_of 7 0 0, photon_of 7 0 0])
   \<and> (\<exists>st2. decode_run 1514764800 1 1 2 1 1514764800 [(7, 0, 0, 0)] [8, 1, 1] (\<lambda>_. [0xFF, 0, 0xFF])
        = Some ([(7, 0, 0, 0), (0, 0, 0, 0)], st2)
      \<and> ptablect st2 = (\<lambda>_. 0)((0, 0) := 1))"
  by (rule extract_short_beam_map)

text \<open>
  C9: the code at a beam map of one pixel whose file is the row \<open>7 2 0 0\<close>, which flags
  pixel \<open>(0, 0)\<close> as failed, followed by the two values \<open>8 0\<close>.  \<open>extract_photons\<close> has no
  parameter for the mode and decodes with \<open>mapflag = 1\<close>; with the row alone the event of
  pixel \<open>(0, 0)\<close> is excluded and the run returns nothing.  With the two further values the
  stores after the failed \<open>fscanf\<close> overwrite the pixel's flag with 0 and its detector id
  with 8: the event of the pixel the file flags with 2 is decoded and returned, under
  detector id 8.
\<close>

theorem extract_photons_keeps_flagged_pixel:
  "extract_photons False 1514764800 0 [(7, 2, 0, 0)] [8, 0] 1 1 10 1514764800
     (\<lambda>_. [0xFF, 0, 0xFF]) = Some (1, [photon_of 8 0 0])
   \<and> extract_photons False 1514764800 0 [(7, 2, 0, 0)] [] 1 1 10 1514764800
     (\<lambda>_. [0xFF, 0, 0xFF]) = Some (0, [])"
  by (simp only: extract_flagged_pixel_partial_row extract_flagged_pixel)

end
